theory Spec2Isabelle
  imports Complex_Main "HOL-Library.AList"
begin

section \<open>Subscription store\<close>

text \<open>
  The notification service keeps two collections, \<^verbatim>\<open>category_subscriptions\<close> and
  \<^verbatim>\<open>book_subscriptions\<close> (models/CategorySubscription.js, models/BookSubscription.js).
  A collection is the list of its documents in insertion order. The fields the two
  schemas share form the record \<open>Subscription\<close>; each schema extends it. A date is
  the number of milliseconds \<^verbatim>\<open>Date\<close> holds. A request field that is missing, or
  the empty string, is the empty string: JavaScript treats both as false in
  \<^verbatim>\<open>!userId\<close> and in \<^verbatim>\<open>userName || ''\<close>.
\<close>

record Subscription =
  userId :: string
  userEmail :: string
  userName :: string
  isActive :: bool
  subscribedAt :: int

record CategorySubscription = Subscription +
  categoryId :: string
  categoryName :: string

record BookSubscription = Subscription +
  bookId :: string
  bookTitle :: string
  bookCategory :: string

text \<open>
  \<^verbatim>\<open>Model.findOne(filter)\<close> gives the first document the filter accepts, here as its
  position in the collection, so that \<^verbatim>\<open>doc.save()\<close> can write that very document
  back.
\<close>

fun findOne :: "('a \<Rightarrow> bool) \<Rightarrow> 'a list \<Rightarrow> nat option" where
  "findOne p [] = None"
| "findOne p (x # xs) =
     (if p x then Some 0 else (case findOne p xs of None \<Rightarrow> None | Some i \<Rightarrow> Some (Suc i)))"

text \<open>
  Both schemas declare a unique compound index, on (userId, categoryId) and on
  (userId, bookId). Saving a new document whose key is already in the collection is
  refused by the store (a duplicate-key error, which the controllers' \<^verbatim>\<open>catch\<close>
  turns into status 500).
\<close>

definition categoryKey :: "'a CategorySubscription_scheme \<Rightarrow> string \<times> string" where
  "categoryKey s = (userId s, categoryId s)"

definition bookKey :: "'a BookSubscription_scheme \<Rightarrow> string \<times> string" where
  "bookKey s = (userId s, bookId s)"

definition insertUnique :: "('a \<Rightarrow> 'k) \<Rightarrow> 'a \<Rightarrow> 'a list \<Rightarrow> 'a list option" where
  "insertUnique key doc coll =
     (if key doc \<in> set (map key coll) then None else Some (coll @ [doc]))"

subsection \<open>Category subscriptions\<close>

record subscribeToCategory_body =
  sc_userId :: string
  sc_userEmail :: string
  sc_userName :: string
  sc_categoryId :: string
  sc_categoryName :: string

text \<open>
  \<^verbatim>\<open>new CategorySubscription({...})\<close> as the controller calls it: \<^verbatim>\<open>isActive\<close> and
  \<^verbatim>\<open>subscribedAt\<close> take the schema's defaults, \<^verbatim>\<open>true\<close> and \<^verbatim>\<open>Date.now\<close>.
\<close>

definition newCategorySubscription :: "int \<Rightarrow> subscribeToCategory_body \<Rightarrow> CategorySubscription" where
  "newCategorySubscription now body =
     \<lparr>userId = sc_userId body, userEmail = sc_userEmail body,
      userName = sc_userName body, isActive = True, subscribedAt = now,
      categoryId = sc_categoryId body, categoryName = sc_categoryName body\<rparr>"

text \<open>
  \<^verbatim>\<open>subscribeToCategory(req, res)\<close>: the HTTP status of the response and the collection
  afterwards. \<open>now\<close> is the value of \<^verbatim>\<open>new Date()\<close>, which is also the schema's default
  for \<^verbatim>\<open>subscribedAt\<close> of a new document.
\<close>

definition subscribeToCategory ::
  "int \<Rightarrow> subscribeToCategory_body \<Rightarrow> CategorySubscription list \<Rightarrow> nat \<times> CategorySubscription list"
where
  "subscribeToCategory now body coll =
     (if sc_userId body = [] \<or> sc_userEmail body = [] \<or> sc_categoryId body = [] \<or>
         sc_categoryName body = []
      then (400, coll)
      else
        (case findOne (\<lambda>d. userId d = sc_userId body \<and> categoryId d = sc_categoryId body) coll of
           Some i \<Rightarrow>
             (if isActive (coll ! i) then (409, coll)
              else (200, coll[i := (coll ! i)\<lparr>isActive := True, subscribedAt := now\<rparr>]))
         | None \<Rightarrow>
             (case insertUnique categoryKey (newCategorySubscription now body) coll of
                Some coll' \<Rightarrow> (201, coll')
              | None \<Rightarrow> (500, coll))))"

text \<open>\<^verbatim>\<open>unsubscribeFromCategory(req, res)\<close>: a soft delete.\<close>

definition unsubscribeFromCategory ::
  "string \<Rightarrow> string \<Rightarrow> CategorySubscription list \<Rightarrow> nat \<times> CategorySubscription list"
where
  "unsubscribeFromCategory uid cid coll =
     (if uid = [] \<or> cid = [] then (400, coll)
      else
        (case findOne (\<lambda>d. userId d = uid \<and> categoryId d = cid) coll of
           None \<Rightarrow> (404, coll)
         | Some i \<Rightarrow> (200, coll[i := (coll ! i)\<lparr>isActive := False\<rparr>])))"

subsection \<open>Book subscriptions\<close>

record subscribeToBook_body =
  sb_userId :: string
  sb_userEmail :: string
  sb_userName :: string
  sb_bookId :: string
  sb_bookTitle :: string
  sb_bookCategory :: string

definition newBookSubscription :: "int \<Rightarrow> subscribeToBook_body \<Rightarrow> BookSubscription" where
  "newBookSubscription now body =
     \<lparr>userId = sb_userId body, userEmail = sb_userEmail body,
      userName = sb_userName body, isActive = True, subscribedAt = now,
      bookId = sb_bookId body, bookTitle = sb_bookTitle body,
      bookCategory = sb_bookCategory body\<rparr>"

definition subscribeToBook ::
  "int \<Rightarrow> subscribeToBook_body \<Rightarrow> BookSubscription list \<Rightarrow> nat \<times> BookSubscription list"
where
  "subscribeToBook now body coll =
     (if sb_userId body = [] \<or> sb_userEmail body = [] \<or> sb_bookId body = [] \<or>
         sb_bookTitle body = []
      then (400, coll)
      else
        (case findOne (\<lambda>d. userId d = sb_userId body \<and> bookId d = sb_bookId body) coll of
           Some i \<Rightarrow>
             (if isActive (coll ! i) then (409, coll)
              else (200, coll[i := (coll ! i)\<lparr>isActive := True, subscribedAt := now\<rparr>]))
         | None \<Rightarrow>
             (case insertUnique bookKey (newBookSubscription now body) coll of
                Some coll' \<Rightarrow> (201, coll')
              | None \<Rightarrow> (500, coll))))"

definition unsubscribeFromBook ::
  "string \<Rightarrow> string \<Rightarrow> BookSubscription list \<Rightarrow> nat \<times> BookSubscription list"
where
  "unsubscribeFromBook uid bid coll =
     (if uid = [] \<or> bid = [] then (400, coll)
      else
        (case findOne (\<lambda>d. userId d = uid \<and> bookId d = bid) coll of
           None \<Rightarrow> (404, coll)
         | Some i \<Rightarrow> (200, coll[i := (coll ! i)\<lparr>isActive := False\<rparr>])))"

subsection \<open>Facts about the store primitives\<close>

lemma findOne_None: "findOne p xs = None \<longleftrightarrow> (\<forall>x\<in>set xs. \<not> p x)"
  by (induction xs) (auto split: option.splits)

lemma findOne_Some:
  "findOne p xs = Some i \<Longrightarrow> i < length xs \<and> p (xs ! i) \<and> (\<forall>j<i. \<not> p (xs ! j))"
proof (induction xs arbitrary: i)
  case Nil
  then show ?case by simp
next
  case (Cons x xs)
  show ?case
  proof (cases "p x")
    case True
    with Cons.prems show ?thesis by simp
  next
    case False
    with Cons.prems obtain k where k: "findOne p xs = Some k" "i = Suc k"
      by (auto split: option.splits)
    from Cons.IH[OF k(1)] False k(2) show ?thesis
      by (auto simp: less_Suc_eq_0_disj)
  qed
qed

lemma findOne_append_new:
  assumes "\<forall>x\<in>set xs. \<not> p x" "p y"
  shows "findOne p (xs @ [y]) = Some (length xs)"
  using assms by (induction xs) auto

lemma unique_key_at:
  assumes "distinct (map key xs)" "i < length xs" "x \<in> set xs" "key x = key (xs ! i)"
  shows "x = xs ! i"
proof -
  from assms(3) obtain j where j: "j < length xs" "xs ! j = x"
    by (auto simp: in_set_conv_nth)
  with assms have "map key xs ! j = map key xs ! i" by simp
  with assms(1,2) j(1) have "j = i"
    using nth_eq_iff_index_eq[of "map key xs" j i] by simp
  with j show ?thesis by simp
qed

lemma findOne_unique:
  assumes d: "distinct (map key xs)" and i: "i < length xs"
    and p: "\<And>x. p x \<longleftrightarrow> key x = k" and k: "key (xs ! i) = k"
  shows "findOne p xs = Some i"
proof (cases "findOne p xs")
  case None
  with i p k show ?thesis by (auto simp: findOne_None)
next
  case (Some j)
  from findOne_Some[OF Some] have j: "j < length xs" "p (xs ! j)" by auto
  with p k have "key (xs ! j) = key (xs ! i)" by simp
  with unique_key_at[OF d i, of "xs ! j"] j(1) have "xs ! j = xs ! i" by simp
  with d i j(1) have "j = i"
    using nth_eq_iff_index_eq[of "map key xs" j i] by simp
  with Some show ?thesis by simp
qed

subsection \<open>The four controllers, case by case\<close>

lemma subscribeToCategory_absent:
  assumes "sc_userId body \<noteq> []" "sc_userEmail body \<noteq> []" "sc_categoryId body \<noteq> []"
    "sc_categoryName body \<noteq> []"
    and "\<forall>d\<in>set coll. categoryKey d \<noteq> (sc_userId body, sc_categoryId body)"
  shows "subscribeToCategory now body coll = (201, coll @ [newCategorySubscription now body])"
proof -
  from assms(5)
  have "findOne (\<lambda>d. userId d = sc_userId body \<and> categoryId d = sc_categoryId body) coll = None"
    by (auto simp: findOne_None categoryKey_def)
  moreover from assms(5) have "(sc_userId body, sc_categoryId body) \<notin> categoryKey ` set coll"
    by auto
  ultimately show ?thesis using assms(1-4)
    by (simp add: subscribeToCategory_def insertUnique_def categoryKey_def
        newCategorySubscription_def)
qed

lemma subscribeToCategory_present:
  assumes "sc_userId body \<noteq> []" "sc_userEmail body \<noteq> []" "sc_categoryId body \<noteq> []"
    "sc_categoryName body \<noteq> []"
    and "distinct (map categoryKey coll)" "i < length coll"
    and "categoryKey (coll ! i) = (sc_userId body, sc_categoryId body)"
  shows "subscribeToCategory now body coll =
     (if isActive (coll ! i) then (409, coll)
      else (200, coll[i := (coll ! i)\<lparr>isActive := True, subscribedAt := now\<rparr>]))"
proof -
  have "findOne (\<lambda>d. userId d = sc_userId body \<and> categoryId d = sc_categoryId body) coll = Some i"
    by (rule findOne_unique[OF assms(5,6) _ assms(7)]) (auto simp: categoryKey_def)
  then show ?thesis using assms(1-4) by (simp add: subscribeToCategory_def)
qed

lemma unsubscribeFromCategory_absent:
  assumes "uid \<noteq> []" "cid \<noteq> []" "\<forall>d\<in>set coll. categoryKey d \<noteq> (uid, cid)"
  shows "unsubscribeFromCategory uid cid coll = (404, coll)"
proof -
  from assms(3) have "findOne (\<lambda>d. userId d = uid \<and> categoryId d = cid) coll = None"
    by (auto simp: findOne_None categoryKey_def)
  then show ?thesis using assms(1,2) by (simp add: unsubscribeFromCategory_def)
qed

lemma unsubscribeFromCategory_present:
  assumes "uid \<noteq> []" "cid \<noteq> []"
    and "distinct (map categoryKey coll)" "i < length coll" "categoryKey (coll ! i) = (uid, cid)"
  shows "unsubscribeFromCategory uid cid coll = (200, coll[i := (coll ! i)\<lparr>isActive := False\<rparr>])"
proof -
  have "findOne (\<lambda>d. userId d = uid \<and> categoryId d = cid) coll = Some i"
    by (rule findOne_unique[OF assms(3,4) _ assms(5)]) (auto simp: categoryKey_def)
  then show ?thesis using assms(1,2) by (simp add: unsubscribeFromCategory_def)
qed

lemma subscribeToBook_absent:
  assumes "sb_userId body \<noteq> []" "sb_userEmail body \<noteq> []" "sb_bookId body \<noteq> []"
    "sb_bookTitle body \<noteq> []"
    and "\<forall>d\<in>set coll. bookKey d \<noteq> (sb_userId body, sb_bookId body)"
  shows "subscribeToBook now body coll = (201, coll @ [newBookSubscription now body])"
proof -
  from assms(5)
  have "findOne (\<lambda>d. userId d = sb_userId body \<and> bookId d = sb_bookId body) coll = None"
    by (auto simp: findOne_None bookKey_def)
  moreover from assms(5) have "(sb_userId body, sb_bookId body) \<notin> bookKey ` set coll"
    by auto
  ultimately show ?thesis using assms(1-4)
    by (simp add: subscribeToBook_def insertUnique_def bookKey_def newBookSubscription_def)
qed

lemma subscribeToBook_present:
  assumes "sb_userId body \<noteq> []" "sb_userEmail body \<noteq> []" "sb_bookId body \<noteq> []"
    "sb_bookTitle body \<noteq> []"
    and "distinct (map bookKey coll)" "i < length coll"
    and "bookKey (coll ! i) = (sb_userId body, sb_bookId body)"
  shows "subscribeToBook now body coll =
     (if isActive (coll ! i) then (409, coll)
      else (200, coll[i := (coll ! i)\<lparr>isActive := True, subscribedAt := now\<rparr>]))"
proof -
  have "findOne (\<lambda>d. userId d = sb_userId body \<and> bookId d = sb_bookId body) coll = Some i"
    by (rule findOne_unique[OF assms(5,6) _ assms(7)]) (auto simp: bookKey_def)
  then show ?thesis using assms(1-4) by (simp add: subscribeToBook_def)
qed

lemma unsubscribeFromBook_absent:
  assumes "uid \<noteq> []" "bid \<noteq> []" "\<forall>d\<in>set coll. bookKey d \<noteq> (uid, bid)"
  shows "unsubscribeFromBook uid bid coll = (404, coll)"
proof -
  from assms(3) have "findOne (\<lambda>d. userId d = uid \<and> bookId d = bid) coll = None"
    by (auto simp: findOne_None bookKey_def)
  then show ?thesis using assms(1,2) by (simp add: unsubscribeFromBook_def)
qed

lemma unsubscribeFromBook_present:
  assumes "uid \<noteq> []" "bid \<noteq> []"
    and "distinct (map bookKey coll)" "i < length coll" "bookKey (coll ! i) = (uid, bid)"
  shows "unsubscribeFromBook uid bid coll = (200, coll[i := (coll ! i)\<lparr>isActive := False\<rparr>])"
proof -
  have "findOne (\<lambda>d. userId d = uid \<and> bookId d = bid) coll = Some i"
    by (rule findOne_unique[OF assms(3,4) _ assms(5)]) (auto simp: bookKey_def)
  then show ?thesis using assms(1,2) by (simp add: unsubscribeFromBook_def)
qed

section \<open>Subscribe and unsubscribe: outcomes\<close>

text \<open>
  What section 4.2 of the specification says of \<open>subscribe\<close> and \<open>unsubscribe\<close>, as
  predicates on a collection and the controller's result (status, collection
  afterwards); \<open>key\<close> is the (user, target) pair of a row, \<open>new\<close> the row a first
  subscription creates, which is active and carries the pair of the request.
\<close>

definition subscribe_spec ::
  "('z Subscription_scheme \<Rightarrow> 'k) \<Rightarrow> 'k \<Rightarrow> int \<Rightarrow> 'z Subscription_scheme \<Rightarrow>
   'z Subscription_scheme list \<Rightarrow> nat \<times> 'z Subscription_scheme list \<Rightarrow> bool"
where
  "subscribe_spec key k now new coll res \<longleftrightarrow>
     (fst res = 409 \<longleftrightarrow> (\<exists>d\<in>set coll. key d = k \<and> isActive d)) \<and>
     (fst res = 409 \<longrightarrow> snd res = coll) \<and>
     (fst res = 200 \<longleftrightarrow> (\<exists>d\<in>set coll. key d = k \<and> \<not> isActive d)) \<and>
     (fst res = 200 \<longrightarrow>
        (\<exists>i<length coll. key (coll ! i) = k \<and>
           snd res = coll[i := (coll ! i)\<lparr>isActive := True, subscribedAt := now\<rparr>])) \<and>
     (fst res = 201 \<longleftrightarrow> (\<forall>d\<in>set coll. key d \<noteq> k)) \<and>
     (fst res = 201 \<longrightarrow> snd res = coll @ [new] \<and> key new = k \<and> isActive new)"

definition unsubscribe_spec ::
  "('z Subscription_scheme \<Rightarrow> 'k) \<Rightarrow> 'k \<Rightarrow>
   'z Subscription_scheme list \<Rightarrow> nat \<times> 'z Subscription_scheme list \<Rightarrow> bool"
where
  "unsubscribe_spec key k coll res \<longleftrightarrow>
     (fst res = 404 \<longleftrightarrow> (\<forall>d\<in>set coll. key d \<noteq> k)) \<and>
     (fst res = 404 \<longrightarrow> snd res = coll) \<and>
     (fst res \<noteq> 404 \<longrightarrow>
        fst res = 200 \<and>
        (\<exists>i<length coll. key (coll ! i) = k \<and>
           snd res = coll[i := (coll ! i)\<lparr>isActive := False\<rparr>]))"

lemma subscribe_specI:
  assumes d: "distinct (map key coll)"
    and new: "key new = k" "isActive new"
    and absent: "\<forall>d\<in>set coll. key d \<noteq> k \<Longrightarrow> res = (201, coll @ [new])"
    and present: "\<And>i. i < length coll \<Longrightarrow> key (coll ! i) = k \<Longrightarrow>
       res = (if isActive (coll ! i) then (409, coll)
              else (200, coll[i := (coll ! i)\<lparr>isActive := True, subscribedAt := now\<rparr>]))"
  shows "subscribe_spec key k now new coll res"
proof (cases "\<forall>d\<in>set coll. key d \<noteq> k")
  case True
  with absent have res: "res = (201, coll @ [new])" by simp
  from True have "\<not> (\<exists>d\<in>set coll. key d = k \<and> isActive d)"
    and "\<not> (\<exists>d\<in>set coll. key d = k \<and> \<not> isActive d)" by blast+
  with True new show ?thesis unfolding subscribe_spec_def res by simp
next
  case False
  then obtain i where i: "i < length coll" "key (coll ! i) = k"
    by (auto simp: in_set_conv_nth)
  have only: "x = coll ! i" if "x \<in> set coll" "key x = k" for x
    using unique_key_at[OF d i(1) that(1)] that(2) i(2) by simp
  have mem: "coll ! i \<in> set coll" using i(1) by simp
  show ?thesis
  proof (cases "isActive (coll ! i)")
    case True
    with present[OF i] have res: "res = (409, coll)" by simp
    have "\<exists>d\<in>set coll. key d = k \<and> isActive d" using mem i(2) True by blast
    moreover have "\<not> (\<exists>d\<in>set coll. key d = k \<and> \<not> isActive d)"
      using only True by blast
    ultimately show ?thesis unfolding subscribe_spec_def res using False by simp
  next
    case inactive: False
    with present[OF i]
    have res: "res = (200, coll[i := (coll ! i)\<lparr>isActive := True, subscribedAt := now\<rparr>])"
      by simp
    have "\<exists>d\<in>set coll. key d = k \<and> \<not> isActive d" using mem i(2) inactive by blast
    moreover have "\<not> (\<exists>d\<in>set coll. key d = k \<and> isActive d)"
      using only inactive by blast
    moreover have "\<exists>j<length coll. key (coll ! j) = k \<and>
        coll[i := (coll ! i)\<lparr>isActive := True, subscribedAt := now\<rparr>] =
        coll[j := (coll ! j)\<lparr>isActive := True, subscribedAt := now\<rparr>]"
      using i by blast
    ultimately show ?thesis unfolding subscribe_spec_def res using False by simp
  qed
qed

lemma unsubscribe_specI:
  assumes absent: "\<forall>d\<in>set coll. key d \<noteq> k \<Longrightarrow> res = (404, coll)"
    and present: "\<And>i. i < length coll \<Longrightarrow> key (coll ! i) = k \<Longrightarrow>
       res = (200, coll[i := (coll ! i)\<lparr>isActive := False\<rparr>])"
  shows "unsubscribe_spec key k coll res"
proof (cases "\<forall>d\<in>set coll. key d \<noteq> k")
  case True
  with absent have res: "res = (404, coll)" by simp
  from True show ?thesis unfolding unsubscribe_spec_def res by simp
next
  case False
  then obtain i where i: "i < length coll" "key (coll ! i) = k"
    by (auto simp: in_set_conv_nth)
  from present[OF i] have res: "res = (200, coll[i := (coll ! i)\<lparr>isActive := False\<rparr>])" .
  have "\<exists>j<length coll. key (coll ! j) = k \<and>
        coll[i := (coll ! i)\<lparr>isActive := False\<rparr>] = coll[j := (coll ! j)\<lparr>isActive := False\<rparr>]"
    using i by blast
  then show ?thesis unfolding unsubscribe_spec_def res using False by simp
qed

text \<open>What the two predicates give in each case.\<close>

lemma subscribe_spec_conflict:
  assumes "subscribe_spec key k now new coll res" "d \<in> set coll" "key d = k" "isActive d"
  shows "res = (409, coll)"
proof -
  from assms(2-4) have ex: "\<exists>d\<in>set coll. key d = k \<and> isActive d" by blast
  from assms(1) have "fst res = 409 \<longleftrightarrow> (\<exists>d\<in>set coll. key d = k \<and> isActive d)"
    and "fst res = 409 \<longrightarrow> snd res = coll"
    unfolding subscribe_spec_def by blast+
  with ex have "fst res = 409" "snd res = coll" by blast+
  then show ?thesis by (simp add: prod_eq_iff)
qed

lemma subscribe_spec_reactivated:
  assumes "subscribe_spec key k now new coll res" "d \<in> set coll" "key d = k" "\<not> isActive d"
  shows "fst res = 200 \<and>
         (\<exists>i<length coll. key (coll ! i) = k \<and>
            snd res = coll[i := (coll ! i)\<lparr>isActive := True, subscribedAt := now\<rparr>])"
proof -
  from assms(2-4) have ex: "\<exists>d\<in>set coll. key d = k \<and> \<not> isActive d" by blast
  from assms(1) have "fst res = 200 \<longleftrightarrow> (\<exists>d\<in>set coll. key d = k \<and> \<not> isActive d)"
    and "fst res = 200 \<longrightarrow> (\<exists>i<length coll. key (coll ! i) = k \<and>
            snd res = coll[i := (coll ! i)\<lparr>isActive := True, subscribedAt := now\<rparr>])"
    unfolding subscribe_spec_def by blast+
  with ex show ?thesis by blast
qed

lemma subscribe_spec_created:
  assumes "subscribe_spec key k now new coll res" "\<forall>d\<in>set coll. key d \<noteq> k"
  shows "res = (201, coll @ [new]) \<and> key new = k \<and> isActive new"
proof -
  from assms(1) have "fst res = 201 \<longleftrightarrow> (\<forall>d\<in>set coll. key d \<noteq> k)"
    and "fst res = 201 \<longrightarrow> snd res = coll @ [new] \<and> key new = k \<and> isActive new"
    unfolding subscribe_spec_def by blast+
  with assms(2) have "fst res = 201" "snd res = coll @ [new]" "key new = k" "isActive new"
    by blast+
  then show ?thesis by (simp add: prod_eq_iff)
qed

lemma unsubscribe_spec_absent:
  assumes "unsubscribe_spec key k coll res" "\<forall>d\<in>set coll. key d \<noteq> k"
  shows "res = (404, coll)"
proof -
  from assms(1) have "fst res = 404 \<longleftrightarrow> (\<forall>d\<in>set coll. key d \<noteq> k)"
    and "fst res = 404 \<longrightarrow> snd res = coll"
    unfolding unsubscribe_spec_def by blast+
  with assms(2) have "fst res = 404" "snd res = coll" by blast+
  then show ?thesis by (simp add: prod_eq_iff)
qed

lemma unsubscribe_spec_present:
  assumes "unsubscribe_spec key k coll res" "d \<in> set coll" "key d = k"
  shows "fst res = 200 \<and>
         (\<exists>i<length coll. key (coll ! i) = k \<and> snd res = coll[i := (coll ! i)\<lparr>isActive := False\<rparr>])"
proof -
  from assms(2,3) have ex: "\<not> (\<forall>d\<in>set coll. key d \<noteq> k)" by blast
  from assms(1) have "fst res = 404 \<longleftrightarrow> (\<forall>d\<in>set coll. key d \<noteq> k)"
    and "fst res \<noteq> 404 \<longrightarrow> fst res = 200 \<and>
        (\<exists>i<length coll. key (coll ! i) = k \<and> snd res = coll[i := (coll ! i)\<lparr>isActive := False\<rparr>])"
    unfolding unsubscribe_spec_def by blast+
  with ex show ?thesis by blast
qed

text \<open>
  C5. For a request that carries its required fields and a collection that respects
  its unique index, \<open>subscribeToCategory\<close> answers 409 exactly when an active row for
  the (user, category) pair exists, answers 200 and reactivates the row (active again,
  \<open>subscribedAt\<close> set to now) exactly when an inactive row exists, and answers 201 and
  appends a new row exactly when no row exists; the new row is active, carries the
  user and the category of the request (with the email and the names the request
  gives) and is stamped now. \<open>unsubscribeFromCategory\<close>
  answers 404 exactly when no row for the pair exists and otherwise answers 200 and
  marks the row inactive in place, the collection keeping its length. The same holds of
  \<open>subscribeToBook\<close> and \<open>unsubscribeFromBook\<close> for (user, book) pairs.
\<close>

theorem subscribe_unsubscribe_outcomes:
  fixes cbody :: subscribeToCategory_body and bbody :: subscribeToBook_body
  assumes "sc_userId cbody \<noteq> []" "sc_userEmail cbody \<noteq> []" "sc_categoryId cbody \<noteq> []"
    "sc_categoryName cbody \<noteq> []"
    and "sb_userId bbody \<noteq> []" "sb_userEmail bbody \<noteq> []" "sb_bookId bbody \<noteq> []"
    "sb_bookTitle bbody \<noteq> []"
    and "uid \<noteq> []" "cid \<noteq> []" "bid \<noteq> []"
    and "distinct (map categoryKey ccoll)" "distinct (map bookKey bcoll)"
  shows
    "subscribe_spec categoryKey (sc_userId cbody, sc_categoryId cbody) now
       \<lparr>userId = sc_userId cbody, userEmail = sc_userEmail cbody, userName = sc_userName cbody,
        isActive = True, subscribedAt = now,
        categoryId = sc_categoryId cbody, categoryName = sc_categoryName cbody\<rparr>
       ccoll (subscribeToCategory now cbody ccoll) \<and>
     unsubscribe_spec categoryKey (uid, cid) ccoll (unsubscribeFromCategory uid cid ccoll) \<and>
     subscribe_spec bookKey (sb_userId bbody, sb_bookId bbody) now
       \<lparr>userId = sb_userId bbody, userEmail = sb_userEmail bbody, userName = sb_userName bbody,
        isActive = True, subscribedAt = now,
        bookId = sb_bookId bbody, bookTitle = sb_bookTitle bbody,
        bookCategory = sb_bookCategory bbody\<rparr>
       bcoll (subscribeToBook now bbody bcoll) \<and>
     unsubscribe_spec bookKey (uid, bid) bcoll (unsubscribeFromBook uid bid bcoll)"
proof (intro conjI)
  show "subscribe_spec categoryKey (sc_userId cbody, sc_categoryId cbody) now
       \<lparr>userId = sc_userId cbody, userEmail = sc_userEmail cbody, userName = sc_userName cbody,
        isActive = True, subscribedAt = now,
        categoryId = sc_categoryId cbody, categoryName = sc_categoryName cbody\<rparr>
       ccoll (subscribeToCategory now cbody ccoll)"
  proof (rule subscribe_specI[OF assms(12)])
    show "categoryKey \<lparr>userId = sc_userId cbody, userEmail = sc_userEmail cbody,
        userName = sc_userName cbody, isActive = True, subscribedAt = now,
        categoryId = sc_categoryId cbody, categoryName = sc_categoryName cbody\<rparr> =
        (sc_userId cbody, sc_categoryId cbody)"
      by (simp add: categoryKey_def)
  next
    show "isActive \<lparr>userId = sc_userId cbody, userEmail = sc_userEmail cbody,
        userName = sc_userName cbody, isActive = True, subscribedAt = now,
        categoryId = sc_categoryId cbody, categoryName = sc_categoryName cbody\<rparr>"
      by simp
  next
    assume "\<forall>d\<in>set ccoll. categoryKey d \<noteq> (sc_userId cbody, sc_categoryId cbody)"
    from subscribeToCategory_absent[OF assms(1-4) this, of now]
    show "subscribeToCategory now cbody ccoll =
      (201, ccoll @ [\<lparr>userId = sc_userId cbody, userEmail = sc_userEmail cbody,
        userName = sc_userName cbody, isActive = True, subscribedAt = now,
        categoryId = sc_categoryId cbody, categoryName = sc_categoryName cbody\<rparr>])"
      by (simp add: newCategorySubscription_def)
  next
    fix i
    assume "i < length ccoll" "categoryKey (ccoll ! i) = (sc_userId cbody, sc_categoryId cbody)"
    from subscribeToCategory_present[OF assms(1-4,12) this]
    show "subscribeToCategory now cbody ccoll =
       (if isActive (ccoll ! i) then (409, ccoll)
        else (200, ccoll[i := (ccoll ! i)\<lparr>isActive := True, subscribedAt := now\<rparr>]))" .
  qed
next
  show "unsubscribe_spec categoryKey (uid, cid) ccoll (unsubscribeFromCategory uid cid ccoll)"
    using assms(9,10,12)
    by (intro unsubscribe_specI unsubscribeFromCategory_absent unsubscribeFromCategory_present)
next
  show "subscribe_spec bookKey (sb_userId bbody, sb_bookId bbody) now
       \<lparr>userId = sb_userId bbody, userEmail = sb_userEmail bbody, userName = sb_userName bbody,
        isActive = True, subscribedAt = now,
        bookId = sb_bookId bbody, bookTitle = sb_bookTitle bbody,
        bookCategory = sb_bookCategory bbody\<rparr>
       bcoll (subscribeToBook now bbody bcoll)"
  proof (rule subscribe_specI[OF assms(13)])
    show "bookKey \<lparr>userId = sb_userId bbody, userEmail = sb_userEmail bbody,
        userName = sb_userName bbody, isActive = True, subscribedAt = now,
        bookId = sb_bookId bbody, bookTitle = sb_bookTitle bbody,
        bookCategory = sb_bookCategory bbody\<rparr> = (sb_userId bbody, sb_bookId bbody)"
      by (simp add: bookKey_def)
  next
    show "isActive \<lparr>userId = sb_userId bbody, userEmail = sb_userEmail bbody,
        userName = sb_userName bbody, isActive = True, subscribedAt = now,
        bookId = sb_bookId bbody, bookTitle = sb_bookTitle bbody,
        bookCategory = sb_bookCategory bbody\<rparr>"
      by simp
  next
    assume "\<forall>d\<in>set bcoll. bookKey d \<noteq> (sb_userId bbody, sb_bookId bbody)"
    from subscribeToBook_absent[OF assms(5-8) this, of now]
    show "subscribeToBook now bbody bcoll =
      (201, bcoll @ [\<lparr>userId = sb_userId bbody, userEmail = sb_userEmail bbody,
        userName = sb_userName bbody, isActive = True, subscribedAt = now,
        bookId = sb_bookId bbody, bookTitle = sb_bookTitle bbody,
        bookCategory = sb_bookCategory bbody\<rparr>])"
      by (simp add: newBookSubscription_def)
  next
    fix i
    assume "i < length bcoll" "bookKey (bcoll ! i) = (sb_userId bbody, sb_bookId bbody)"
    from subscribeToBook_present[OF assms(5-8,13) this]
    show "subscribeToBook now bbody bcoll =
       (if isActive (bcoll ! i) then (409, bcoll)
        else (200, bcoll[i := (bcoll ! i)\<lparr>isActive := True, subscribedAt := now\<rparr>]))" .
  qed
next
  show "unsubscribe_spec bookKey (uid, bid) bcoll (unsubscribeFromBook uid bid bcoll)"
    using assms(9,11,13)
    by (intro unsubscribe_specI unsubscribeFromBook_absent unsubscribeFromBook_present)
qed

text \<open>
  The theorem at a store where user \<open>u1\<close> holds an active subscription to category
  \<open>c1\<close> and an inactive one to book \<open>b1\<close>. For \<open>u1\<close>: subscribing to \<open>c1\<close> again is a
  conflict, unsubscribing from \<open>c1\<close> marks the row inactive, subscribing to \<open>b1\<close>
  again reactivates the row. For \<open>u2\<close>, who has no row: subscribing to \<open>c1\<close> creates
  an active row after the existing one, and unsubscribing from \<open>b1\<close> is answered 404.
\<close>

theorem subscribe_unsubscribe_outcomes_witness:
  "subscribeToCategory 9
     \<lparr>sc_userId = ''u1'', sc_userEmail = ''u1@lib.org'', sc_userName = ''Ann'',
      sc_categoryId = ''c1'', sc_categoryName = ''Science''\<rparr>
     [\<lparr>userId = ''u1'', userEmail = ''u1@lib.org'', userName = ''Ann'', isActive = True,
       subscribedAt = 5, categoryId = ''c1'', categoryName = ''Science''\<rparr>] =
     (409, [\<lparr>userId = ''u1'', userEmail = ''u1@lib.org'', userName = ''Ann'', isActive = True,
       subscribedAt = 5, categoryId = ''c1'', categoryName = ''Science''\<rparr>]) \<and>
   unsubscribeFromCategory ''u1'' ''c1''
     [\<lparr>userId = ''u1'', userEmail = ''u1@lib.org'', userName = ''Ann'', isActive = True,
       subscribedAt = 5, categoryId = ''c1'', categoryName = ''Science''\<rparr>] =
     (200, [\<lparr>userId = ''u1'', userEmail = ''u1@lib.org'', userName = ''Ann'', isActive = False,
       subscribedAt = 5, categoryId = ''c1'', categoryName = ''Science''\<rparr>]) \<and>
   subscribeToBook 9
     \<lparr>sb_userId = ''u1'', sb_userEmail = ''u1@lib.org'', sb_userName = ''Ann'',
      sb_bookId = ''b1'', sb_bookTitle = ''Cosmos'', sb_bookCategory = ''Science''\<rparr>
     [\<lparr>userId = ''u1'', userEmail = ''u1@lib.org'', userName = ''Ann'', isActive = False,
       subscribedAt = 5, bookId = ''b1'', bookTitle = ''Cosmos'', bookCategory = ''Science''\<rparr>] =
     (200, [\<lparr>userId = ''u1'', userEmail = ''u1@lib.org'', userName = ''Ann'', isActive = True,
       subscribedAt = 9, bookId = ''b1'', bookTitle = ''Cosmos'', bookCategory = ''Science''\<rparr>]) \<and>
   subscribeToCategory 9
     \<lparr>sc_userId = ''u2'', sc_userEmail = ''u2@lib.org'', sc_userName = ''Bob'',
      sc_categoryId = ''c1'', sc_categoryName = ''Science''\<rparr>
     [\<lparr>userId = ''u1'', userEmail = ''u1@lib.org'', userName = ''Ann'', isActive = True,
       subscribedAt = 5, categoryId = ''c1'', categoryName = ''Science''\<rparr>] =
     (201, [\<lparr>userId = ''u1'', userEmail = ''u1@lib.org'', userName = ''Ann'', isActive = True,
       subscribedAt = 5, categoryId = ''c1'', categoryName = ''Science''\<rparr>,
      \<lparr>userId = ''u2'', userEmail = ''u2@lib.org'', userName = ''Bob'', isActive = True,
       subscribedAt = 9, categoryId = ''c1'', categoryName = ''Science''\<rparr>]) \<and>
   unsubscribeFromBook ''u2'' ''b1''
     [\<lparr>userId = ''u1'', userEmail = ''u1@lib.org'', userName = ''Ann'', isActive = False,
       subscribedAt = 5, bookId = ''b1'', bookTitle = ''Cosmos'', bookCategory = ''Science''\<rparr>] =
     (404, [\<lparr>userId = ''u1'', userEmail = ''u1@lib.org'', userName = ''Ann'', isActive = False,
       subscribedAt = 5, bookId = ''b1'', bookTitle = ''Cosmos'', bookCategory = ''Science''\<rparr>])"
proof -
  let ?c = "\<lparr>userId = ''u1'', userEmail = ''u1@lib.org'', userName = ''Ann'', isActive = True,
       subscribedAt = 5, categoryId = ''c1'', categoryName = ''Science''\<rparr>"
  let ?b = "\<lparr>userId = ''u1'', userEmail = ''u1@lib.org'', userName = ''Ann'', isActive = False,
       subscribedAt = 5, bookId = ''b1'', bookTitle = ''Cosmos'', bookCategory = ''Science''\<rparr>"
  let ?cb = "\<lparr>sc_userId = ''u1'', sc_userEmail = ''u1@lib.org'', sc_userName = ''Ann'',
      sc_categoryId = ''c1'', sc_categoryName = ''Science''\<rparr>"
  let ?bb = "\<lparr>sb_userId = ''u1'', sb_userEmail = ''u1@lib.org'', sb_userName = ''Ann'',
      sb_bookId = ''b1'', sb_bookTitle = ''Cosmos'', sb_bookCategory = ''Science''\<rparr>"
  let ?cb2 = "\<lparr>sc_userId = ''u2'', sc_userEmail = ''u2@lib.org'', sc_userName = ''Bob'',
      sc_categoryId = ''c1'', sc_categoryName = ''Science''\<rparr>"
  have dc: "distinct (map categoryKey [?c])" and db: "distinct (map bookKey [?b])"
    by simp_all
  have one: "subscribe_spec categoryKey (sc_userId ?cb, sc_categoryId ?cb) 9
       \<lparr>userId = sc_userId ?cb, userEmail = sc_userEmail ?cb, userName = sc_userName ?cb,
        isActive = True, subscribedAt = 9,
        categoryId = sc_categoryId ?cb, categoryName = sc_categoryName ?cb\<rparr>
       [?c] (subscribeToCategory 9 ?cb [?c]) \<and>
     unsubscribe_spec categoryKey (''u1'', ''c1'') [?c] (unsubscribeFromCategory ''u1'' ''c1'' [?c]) \<and>
     subscribe_spec bookKey (sb_userId ?bb, sb_bookId ?bb) 9
       \<lparr>userId = sb_userId ?bb, userEmail = sb_userEmail ?bb, userName = sb_userName ?bb,
        isActive = True, subscribedAt = 9,
        bookId = sb_bookId ?bb, bookTitle = sb_bookTitle ?bb,
        bookCategory = sb_bookCategory ?bb\<rparr>
       [?b] (subscribeToBook 9 ?bb [?b]) \<and>
     unsubscribe_spec bookKey (''u1'', ''b1'') [?b] (unsubscribeFromBook ''u1'' ''b1'' [?b])"
    by (rule subscribe_unsubscribe_outcomes[OF _ _ _ _ _ _ _ _ _ _ _ dc db]) simp_all
  have two: "subscribe_spec categoryKey (sc_userId ?cb2, sc_categoryId ?cb2) 9
       \<lparr>userId = sc_userId ?cb2, userEmail = sc_userEmail ?cb2, userName = sc_userName ?cb2,
        isActive = True, subscribedAt = 9,
        categoryId = sc_categoryId ?cb2, categoryName = sc_categoryName ?cb2\<rparr>
       [?c] (subscribeToCategory 9 ?cb2 [?c]) \<and>
     unsubscribe_spec categoryKey (''u2'', ''c1'') [?c] (unsubscribeFromCategory ''u2'' ''c1'' [?c]) \<and>
     subscribe_spec bookKey (sb_userId ?bb, sb_bookId ?bb) 9
       \<lparr>userId = sb_userId ?bb, userEmail = sb_userEmail ?bb, userName = sb_userName ?bb,
        isActive = True, subscribedAt = 9,
        bookId = sb_bookId ?bb, bookTitle = sb_bookTitle ?bb,
        bookCategory = sb_bookCategory ?bb\<rparr>
       [?b] (subscribeToBook 9 ?bb [?b]) \<and>
     unsubscribe_spec bookKey (''u2'', ''b1'') [?b] (unsubscribeFromBook ''u2'' ''b1'' [?b])"
    by (rule subscribe_unsubscribe_outcomes[OF _ _ _ _ _ _ _ _ _ _ _ dc db]) simp_all
  have 1: "subscribeToCategory 9 ?cb [?c] = (409, [?c])"
    by (rule subscribe_spec_conflict[OF one[THEN conjunct1], of ?c])
       (simp_all add: categoryKey_def)
  have "fst (unsubscribeFromCategory ''u1'' ''c1'' [?c]) = 200 \<and>
      (\<exists>i<length [?c]. categoryKey ([?c] ! i) = (''u1'', ''c1'') \<and>
         snd (unsubscribeFromCategory ''u1'' ''c1'' [?c]) = [?c][i := ([?c] ! i)\<lparr>isActive := False\<rparr>])"
    by (rule unsubscribe_spec_present[OF one[THEN conjunct2, THEN conjunct1], of ?c])
       (simp_all add: categoryKey_def)
  then have 2: "unsubscribeFromCategory ''u1'' ''c1'' [?c] = (200, [?c\<lparr>isActive := False\<rparr>])"
    by (simp add: prod_eq_iff)
  have "fst (subscribeToBook 9 ?bb [?b]) = 200 \<and>
      (\<exists>i<length [?b]. bookKey ([?b] ! i) = (sb_userId ?bb, sb_bookId ?bb) \<and>
         snd (subscribeToBook 9 ?bb [?b]) = [?b][i := ([?b] ! i)\<lparr>isActive := True, subscribedAt := 9\<rparr>])"
    by (rule subscribe_spec_reactivated
          [OF one[THEN conjunct2, THEN conjunct2, THEN conjunct1], of ?b])
       (simp_all add: bookKey_def)
  then have 3: "subscribeToBook 9 ?bb [?b] = (200, [?b\<lparr>isActive := True, subscribedAt := 9\<rparr>])"
    by (simp add: prod_eq_iff)
  have 4: "subscribeToCategory 9 ?cb2 [?c] =
      (201, [?c] @ [\<lparr>userId = sc_userId ?cb2, userEmail = sc_userEmail ?cb2,
        userName = sc_userName ?cb2, isActive = True, subscribedAt = 9,
        categoryId = sc_categoryId ?cb2, categoryName = sc_categoryName ?cb2\<rparr>])"
    by (rule subscribe_spec_created[OF two[THEN conjunct1], THEN conjunct1])
       (simp add: categoryKey_def)
  have 5: "unsubscribeFromBook ''u2'' ''b1'' [?b] = (404, [?b])"
    by (rule unsubscribe_spec_absent[OF two[THEN conjunct2, THEN conjunct2, THEN conjunct2]])
       (simp add: bookKey_def)
  from 1 2 3 4 5 show ?thesis by simp
qed

text \<open>
  C9. Unsubscribing from a target whose row exists but is already inactive answers
  200, not 404, and leaves the collection as it was, the row still inactive; this
  holds of \<open>unsubscribeFromCategory\<close> and of \<open>unsubscribeFromBook\<close>.
\<close>

theorem unsubscribe_inactive_succeeds:
  fixes c :: CategorySubscription and b :: BookSubscription
  assumes "uid \<noteq> []" "cid \<noteq> []" "bid \<noteq> []"
    and "distinct (map categoryKey ccoll)" "c \<in> set ccoll" "categoryKey c = (uid, cid)"
      "\<not> isActive c"
    and "distinct (map bookKey bcoll)" "b \<in> set bcoll" "bookKey b = (uid, bid)"
      "\<not> isActive b"
  shows "unsubscribeFromCategory uid cid ccoll = (200, ccoll) \<and>
         unsubscribeFromBook uid bid bcoll = (200, bcoll)"
proof
  from assms(5) obtain i where i: "i < length ccoll" "ccoll ! i = c"
    by (auto simp: in_set_conv_nth)
  from assms(7) have "c\<lparr>isActive := False\<rparr> = c" by (cases c) simp
  with i have "ccoll[i := (ccoll ! i)\<lparr>isActive := False\<rparr>] = ccoll"
    by (simp add: list_update_same_conv)
  with unsubscribeFromCategory_present[OF assms(1,2,4) i(1)] i(2) assms(6)
  show "unsubscribeFromCategory uid cid ccoll = (200, ccoll)" by simp
next
  from assms(9) obtain j where j: "j < length bcoll" "bcoll ! j = b"
    by (auto simp: in_set_conv_nth)
  from assms(11) have "b\<lparr>isActive := False\<rparr> = b" by (cases b) simp
  with j have "bcoll[j := (bcoll ! j)\<lparr>isActive := False\<rparr>] = bcoll"
    by (simp add: list_update_same_conv)
  with unsubscribeFromBook_present[OF assms(1,3,8) j(1)] j(2) assms(10)
  show "unsubscribeFromBook uid bid bcoll = (200, bcoll)" by simp
qed

text \<open>The theorem at a store whose only rows for user \<open>u1\<close> are inactive.\<close>

theorem unsubscribe_inactive_succeeds_witness:
  "unsubscribeFromCategory ''u1'' ''c1''
     [\<lparr>userId = ''u1'', userEmail = ''u1@lib.org'', userName = ''Ann'', isActive = False,
       subscribedAt = 5, categoryId = ''c1'', categoryName = ''Science''\<rparr>] =
   (200, [\<lparr>userId = ''u1'', userEmail = ''u1@lib.org'', userName = ''Ann'', isActive = False,
       subscribedAt = 5, categoryId = ''c1'', categoryName = ''Science''\<rparr>]) \<and>
   unsubscribeFromBook ''u1'' ''b1''
     [\<lparr>userId = ''u1'', userEmail = ''u1@lib.org'', userName = ''Ann'', isActive = False,
       subscribedAt = 5, bookId = ''b1'', bookTitle = ''Cosmos'', bookCategory = ''Science''\<rparr>] =
   (200, [\<lparr>userId = ''u1'', userEmail = ''u1@lib.org'', userName = ''Ann'', isActive = False,
       subscribedAt = 5, bookId = ''b1'', bookTitle = ''Cosmos'', bookCategory = ''Science''\<rparr>])"
  by (rule unsubscribe_inactive_succeeds
      [where c = "\<lparr>userId = ''u1'', userEmail = ''u1@lib.org'', userName = ''Ann'',
         isActive = False, subscribedAt = 5, categoryId = ''c1'', categoryName = ''Science''\<rparr>"
       and b = "\<lparr>userId = ''u1'', userEmail = ''u1@lib.org'', userName = ''Ann'',
         isActive = False, subscribedAt = 5, bookId = ''b1'', bookTitle = ''Cosmos'',
         bookCategory = ''Science''\<rparr>"])
     (simp_all add: categoryKey_def bookKey_def)

section \<open>Sequences of requests on the category collection\<close>

text \<open>
  The service answers one request at a time; a reachable state of the collection is
  what a list of subscribe and unsubscribe requests, served in order, leaves behind.
\<close>

datatype category_request =
  SubscribeRequest int subscribeToCategory_body
| UnsubscribeRequest string string

fun serve :: "category_request \<Rightarrow> CategorySubscription list \<Rightarrow> CategorySubscription list" where
  "serve (SubscribeRequest now body) coll = snd (subscribeToCategory now body coll)"
| "serve (UnsubscribeRequest uid cid) coll = snd (unsubscribeFromCategory uid cid coll)"

definition serve_all ::
  "category_request list \<Rightarrow> CategorySubscription list \<Rightarrow> CategorySubscription list"
where
  "serve_all reqs coll = fold serve reqs coll"

lemma keys_update_same:
  assumes "i < length coll" "key x = key (coll ! i)"
  shows "map key (coll[i := x]) = map key coll"
  using assms by (simp add: map_update list_update_same_conv)

lemma serve_keys:
  "map categoryKey (serve r coll) = map categoryKey coll \<or>
   (\<exists>k. k \<notin> set (map categoryKey coll) \<and>
        map categoryKey (serve r coll) = map categoryKey coll @ [k])"
proof (cases r)
  case (SubscribeRequest now body)
  let ?p = "\<lambda>d. userId d = sc_userId body \<and> categoryId d = sc_categoryId body"
  show ?thesis
  proof (cases "findOne ?p coll")
    case None
    let ?new = "newCategorySubscription now body"
    from None have "snd (subscribeToCategory now body coll) = coll \<or>
        (categoryKey ?new \<notin> set (map categoryKey coll) \<and>
         snd (subscribeToCategory now body coll) = coll @ [?new])"
      by (simp add: subscribeToCategory_def insertUnique_def)
    then show ?thesis
    proof
      assume "snd (subscribeToCategory now body coll) = coll"
      with SubscribeRequest show ?thesis by simp
    next
      assume "categoryKey ?new \<notin> set (map categoryKey coll) \<and>
         snd (subscribeToCategory now body coll) = coll @ [?new]"
      with SubscribeRequest show ?thesis
        by (intro disjI2 exI[of _ "categoryKey ?new"]) simp
    qed
  next
    case (Some i)
    from findOne_Some[OF Some] have i: "i < length coll" by simp
    have "map categoryKey (coll[i := (coll ! i)\<lparr>isActive := True, subscribedAt := now\<rparr>])
        = map categoryKey coll"
      by (rule keys_update_same[OF i]) (simp add: categoryKey_def)
    then show ?thesis using SubscribeRequest Some
      by (simp add: subscribeToCategory_def)
  qed
next
  case (UnsubscribeRequest uid cid)
  let ?p = "\<lambda>d. userId d = uid \<and> categoryId d = cid"
  show ?thesis
  proof (cases "findOne ?p coll")
    case None
    then show ?thesis using UnsubscribeRequest
      by (simp add: unsubscribeFromCategory_def)
  next
    case (Some i)
    from findOne_Some[OF Some] have i: "i < length coll" by simp
    have "map categoryKey (coll[i := (coll ! i)\<lparr>isActive := False\<rparr>]) = map categoryKey coll"
      by (rule keys_update_same[OF i]) (simp add: categoryKey_def)
    then show ?thesis using UnsubscribeRequest Some
      by (simp add: unsubscribeFromCategory_def)
  qed
qed

lemma serve_all_keys_extend:
  "\<exists>rest. map categoryKey (serve_all reqs coll) = map categoryKey coll @ rest"
  unfolding serve_all_def
proof (induction reqs arbitrary: coll)
  case Nil
  then show ?case by simp
next
  case (Cons r reqs)
  from Cons.IH[of "serve r coll"] obtain rest where
    rest: "map categoryKey (fold serve reqs (serve r coll)) = map categoryKey (serve r coll) @ rest"
    by blast
  from serve_keys[of r coll] rest show ?case by auto
qed

lemma serve_all_distinct:
  "distinct (map categoryKey coll) \<Longrightarrow> distinct (map categoryKey (serve_all reqs coll))"
  unfolding serve_all_def
proof (induction reqs arbitrary: coll)
  case Nil
  then show ?case by simp
next
  case (Cons r reqs)
  from serve_keys[of r coll] Cons.prems have "distinct (map categoryKey (serve r coll))"
    by auto
  from Cons.IH[OF this] show ?case by simp
qed

lemma serve_all_at_most_one:
  "count_list (map categoryKey coll) k \<le> 1 \<Longrightarrow>
   count_list (map categoryKey (serve_all reqs coll)) k \<le> 1"
  unfolding serve_all_def
proof (induction reqs arbitrary: coll)
  case Nil
  then show ?case by simp
next
  case (Cons r reqs)
  have "count_list (map categoryKey (serve r coll)) k \<le> 1"
  proof -
    from serve_keys[of r coll] consider
        (same) "map categoryKey (serve r coll) = map categoryKey coll"
      | (new) k' where "k' \<notin> set (map categoryKey coll)"
          "map categoryKey (serve r coll) = map categoryKey coll @ [k']"
      by blast
    then show ?thesis
    proof cases
      case same
      with Cons.prems show ?thesis by simp
    next
      case new
      show ?thesis
      proof (cases "k = k'")
        case True
        with new(1) have "count_list (map categoryKey coll) k = 0"
          by (simp add: count_list_0_iff)
        with new(2) True show ?thesis by simp
      next
        case False
        with new(2) Cons.prems show ?thesis by simp
      qed
    qed
  qed
  from Cons.IH[OF this] show ?case by simp
qed

lemma round_trip_steps:
  assumes v: "sc_userId body \<noteq> []" "sc_userEmail body \<noteq> []" "sc_categoryId body \<noteq> []"
    "sc_categoryName body \<noteq> []"
    and v': "sc_userId again = sc_userId body" "sc_categoryId again = sc_categoryId body"
    "sc_userEmail again \<noteq> []" "sc_categoryName again \<noteq> []"
    and absent: "\<forall>d\<in>set coll. categoryKey d \<noteq> (sc_userId body, sc_categoryId body)"
  shows "subscribeToCategory t1 body coll = (201, coll @ [newCategorySubscription t1 body])"
    and "unsubscribeFromCategory (sc_userId body) (sc_categoryId body)
           (coll @ [newCategorySubscription t1 body]) =
         (200, coll @ [(newCategorySubscription t1 body)\<lparr>isActive := False\<rparr>])"
    and "subscribeToCategory t2 again (coll @ [(newCategorySubscription t1 body)\<lparr>isActive := False\<rparr>]) =
         (200, coll @ [(newCategorySubscription t1 body)\<lparr>subscribedAt := t2\<rparr>])"
proof -
  let ?p = "\<lambda>d. userId d = sc_userId body \<and> categoryId d = sc_categoryId body"
  from absent have no: "\<forall>x\<in>set coll. \<not> ?p x" by (auto simp: categoryKey_def)
  show "subscribeToCategory t1 body coll = (201, coll @ [newCategorySubscription t1 body])"
    by (rule subscribeToCategory_absent[OF v absent])
  have "findOne ?p (coll @ [newCategorySubscription t1 body]) = Some (length coll)"
    by (rule findOne_append_new[OF no]) (simp add: newCategorySubscription_def)
  then show "unsubscribeFromCategory (sc_userId body) (sc_categoryId body)
           (coll @ [newCategorySubscription t1 body]) =
         (200, coll @ [(newCategorySubscription t1 body)\<lparr>isActive := False\<rparr>])"
    using v by (simp add: unsubscribeFromCategory_def)
  have "findOne ?p (coll @ [(newCategorySubscription t1 body)\<lparr>isActive := False\<rparr>]) =
      Some (length coll)"
    by (rule findOne_append_new[OF no]) (simp add: newCategorySubscription_def)
  then show "subscribeToCategory t2 again
        (coll @ [(newCategorySubscription t1 body)\<lparr>isActive := False\<rparr>]) =
      (200, coll @ [(newCategorySubscription t1 body)\<lparr>subscribedAt := t2\<rparr>])"
    using v v' by (simp add: subscribeToCategory_def newCategorySubscription_def)
qed

text \<open>
  C6. From a collection with no row for (U, C), the requests subscribe (at time
  \<open>t1\<close>), unsubscribe, subscribe (at time \<open>t2\<close>) are answered 201, 200, 200 and leave
  the collection with exactly one row for (U, C): the row created by the first
  request (it keeps its email and names if the second request carries others),
  active, with \<open>subscribedAt = t2\<close>. Whatever requests are served from
  there on, for whatever users and categories, the collection never holds two rows for
  (U, C), the rows present at the start keep their places and keys (nothing is
  deleted), and a collection that had one row at most per pair still has.
\<close>

theorem resubscribe_round_trip:
  assumes "sc_userId body \<noteq> []" "sc_userEmail body \<noteq> []" "sc_categoryId body \<noteq> []"
    "sc_categoryName body \<noteq> []"
    and "sc_userId again = sc_userId body" "sc_categoryId again = sc_categoryId body"
    "sc_userEmail again \<noteq> []" "sc_categoryName again \<noteq> []"
    and "\<forall>d\<in>set coll. categoryKey d \<noteq> (sc_userId body, sc_categoryId body)"
  shows
    "subscribeToCategory t1 body coll = (201, coll @ [newCategorySubscription t1 body]) \<and>
     unsubscribeFromCategory (sc_userId body) (sc_categoryId body)
         (coll @ [newCategorySubscription t1 body]) =
       (200, coll @ [(newCategorySubscription t1 body)\<lparr>isActive := False\<rparr>]) \<and>
     subscribeToCategory t2 again (coll @ [(newCategorySubscription t1 body)\<lparr>isActive := False\<rparr>]) =
       (200, coll @ [(newCategorySubscription t1 body)\<lparr>subscribedAt := t2\<rparr>]) \<and>
     serve_all [SubscribeRequest t1 body,
                UnsubscribeRequest (sc_userId body) (sc_categoryId body),
                SubscribeRequest t2 again] coll =
       coll @ [(newCategorySubscription t1 body)\<lparr>subscribedAt := t2\<rparr>] \<and>
     filter (\<lambda>d. categoryKey d = (sc_userId body, sc_categoryId body))
        (coll @ [(newCategorySubscription t1 body)\<lparr>subscribedAt := t2\<rparr>]) =
       [(newCategorySubscription t1 body)\<lparr>subscribedAt := t2\<rparr>] \<and>
     isActive ((newCategorySubscription t1 body)\<lparr>subscribedAt := t2\<rparr>) \<and>
     subscribedAt ((newCategorySubscription t1 body)\<lparr>subscribedAt := t2\<rparr>) = t2 \<and>
     (\<forall>reqs.
        count_list (map categoryKey (serve_all reqs coll)) (sc_userId body, sc_categoryId body) \<le> 1 \<and>
        (\<exists>rest. map categoryKey (serve_all reqs coll) = map categoryKey coll @ rest) \<and>
        (distinct (map categoryKey coll) \<longrightarrow> distinct (map categoryKey (serve_all reqs coll))))"
proof -
  note steps = round_trip_steps[OF assms]
  have run: "serve_all [SubscribeRequest t1 body,
                UnsubscribeRequest (sc_userId body) (sc_categoryId body),
                SubscribeRequest t2 again] coll =
      coll @ [(newCategorySubscription t1 body)\<lparr>subscribedAt := t2\<rparr>]"
    by (simp add: serve_all_def steps)
  from assms(9)
  have filt: "filter (\<lambda>d. categoryKey d = (sc_userId body, sc_categoryId body))
        (coll @ [(newCategorySubscription t1 body)\<lparr>subscribedAt := t2\<rparr>]) =
       [(newCategorySubscription t1 body)\<lparr>subscribedAt := t2\<rparr>]"
    by (simp add: filter_empty_conv categoryKey_def newCategorySubscription_def)
  have fields: "isActive ((newCategorySubscription t1 body)\<lparr>subscribedAt := t2\<rparr>)"
      "subscribedAt ((newCategorySubscription t1 body)\<lparr>subscribedAt := t2\<rparr>) = t2"
    by (simp_all add: newCategorySubscription_def)
  from assms(9) have "count_list (map categoryKey coll) (sc_userId body, sc_categoryId body) = 0"
    by (auto simp: count_list_0_iff)
  then have c0: "count_list (map categoryKey coll) (sc_userId body, sc_categoryId body) \<le> 1"
    by simp
  have reach: "\<forall>reqs.
        count_list (map categoryKey (serve_all reqs coll)) (sc_userId body, sc_categoryId body) \<le> 1 \<and>
        (\<exists>rest. map categoryKey (serve_all reqs coll) = map categoryKey coll @ rest) \<and>
        (distinct (map categoryKey coll) \<longrightarrow> distinct (map categoryKey (serve_all reqs coll)))"
    using serve_all_at_most_one[OF c0] serve_all_keys_extend serve_all_distinct by blast
  from steps run filt fields reach show ?thesis by (intro conjI)
qed

text \<open>
  The theorem at a collection that holds a row of another user for the same category:
  the round trip of user \<open>u1\<close> ends with one row for (\<open>u1\<close>, \<open>c1\<close>) dated 20, and a
  further subscribe request (a conflict) adds none.
\<close>

theorem resubscribe_round_trip_witness:
  "serve_all
     [SubscribeRequest 10 \<lparr>sc_userId = ''u1'', sc_userEmail = ''u1@lib.org'', sc_userName = ''Ann'',
        sc_categoryId = ''c1'', sc_categoryName = ''Science''\<rparr>,
      UnsubscribeRequest ''u1'' ''c1'',
      SubscribeRequest 20 \<lparr>sc_userId = ''u1'', sc_userEmail = ''u1@lib.org'', sc_userName = ''Ann'',
        sc_categoryId = ''c1'', sc_categoryName = ''Science''\<rparr>]
     [\<lparr>userId = ''u2'', userEmail = ''u2@lib.org'', userName = ''Bob'', isActive = True,
       subscribedAt = 5, categoryId = ''c1'', categoryName = ''Science''\<rparr>] =
   [\<lparr>userId = ''u2'', userEmail = ''u2@lib.org'', userName = ''Bob'', isActive = True,
       subscribedAt = 5, categoryId = ''c1'', categoryName = ''Science''\<rparr>,
    \<lparr>userId = ''u1'', userEmail = ''u1@lib.org'', userName = ''Ann'', isActive = True,
       subscribedAt = 20, categoryId = ''c1'', categoryName = ''Science''\<rparr>] \<and>
   count_list (map categoryKey (serve_all
     [SubscribeRequest 10 \<lparr>sc_userId = ''u1'', sc_userEmail = ''u1@lib.org'', sc_userName = ''Ann'',
        sc_categoryId = ''c1'', sc_categoryName = ''Science''\<rparr>,
      SubscribeRequest 30 \<lparr>sc_userId = ''u1'', sc_userEmail = ''u1@lib.org'', sc_userName = ''Ann'',
        sc_categoryId = ''c1'', sc_categoryName = ''Science''\<rparr>]
     [\<lparr>userId = ''u2'', userEmail = ''u2@lib.org'', userName = ''Bob'', isActive = True,
       subscribedAt = 5, categoryId = ''c1'', categoryName = ''Science''\<rparr>]))
     (''u1'', ''c1'') \<le> 1"
proof -
  let ?body = "\<lparr>sc_userId = ''u1'', sc_userEmail = ''u1@lib.org'', sc_userName = ''Ann'',
        sc_categoryId = ''c1'', sc_categoryName = ''Science''\<rparr>"
  let ?coll = "[\<lparr>userId = ''u2'', userEmail = ''u2@lib.org'', userName = ''Bob'', isActive = True,
       subscribedAt = 5, categoryId = ''c1'', categoryName = ''Science''\<rparr>]"
  have absent: "\<forall>d\<in>set ?coll. categoryKey d \<noteq> (sc_userId ?body, sc_categoryId ?body)"
    by (simp add: categoryKey_def)
  note inst = resubscribe_round_trip[of ?body ?body ?coll 10 20, OF _ _ _ _ _ _ _ _ absent]
  have run: "serve_all [SubscribeRequest 10 ?body,
        UnsubscribeRequest (sc_userId ?body) (sc_categoryId ?body),
        SubscribeRequest 20 ?body] ?coll =
      ?coll @ [(newCategorySubscription 10 ?body)\<lparr>subscribedAt := 20\<rparr>]"
    by (rule inst[THEN conjunct2, THEN conjunct2, THEN conjunct2, THEN conjunct1]) simp_all
  have "\<forall>reqs.
        count_list (map categoryKey (serve_all reqs ?coll))
          (sc_userId ?body, sc_categoryId ?body) \<le> 1 \<and>
        (\<exists>rest. map categoryKey (serve_all reqs ?coll) = map categoryKey ?coll @ rest) \<and>
        (distinct (map categoryKey ?coll) \<longrightarrow> distinct (map categoryKey (serve_all reqs ?coll)))"
    by (rule inst[THEN conjunct2, THEN conjunct2, THEN conjunct2, THEN conjunct2,
          THEN conjunct2, THEN conjunct2, THEN conjunct2]) simp_all
  then have "count_list (map categoryKey (serve_all
        [SubscribeRequest 10 ?body, SubscribeRequest 30 ?body] ?coll))
      (sc_userId ?body, sc_categoryId ?body) \<le> 1"
    by blast
  with run show ?thesis by (simp add: newCategorySubscription_def)
qed

section \<open>Targeting resolver\<close>

datatype subscriptionType = Category | Book | Both

text \<open>
  An entry of the resolver's result. The fields a pass does not set are absent from
  the JavaScript object: \<open>None\<close> here.
\<close>

record TargetedSubscriber =
  t_userId :: string
  t_userEmail :: string
  t_userName :: string
  subscriptionType :: subscriptionType
  t_categoryId :: "string option"
  t_categoryName :: "string option"
  t_bookId :: "string option"
  t_bookTitle :: "string option"

text \<open>
  The \<^verbatim>\<open>Map\<close> keyed by userId is an association list in insertion order:
  \<^verbatim>\<open>subscribers.set\<close> on a key already present replaces the value where it stands
  (\<open>AList.update\<close>), \<^verbatim>\<open>subscribers.get\<close> is \<open>map_of\<close>, and
  \<^verbatim>\<open>Array.from(subscribers.values())\<close> is \<open>map snd\<close>.
\<close>

definition categoryEntry :: "CategorySubscription \<Rightarrow> TargetedSubscriber" where
  "categoryEntry sub =
     \<lparr>t_userId = userId sub, t_userEmail = userEmail sub, t_userName = userName sub,
      subscriptionType = Category,
      t_categoryId = Some (categoryId sub), t_categoryName = Some (categoryName sub),
      t_bookId = None, t_bookTitle = None\<rparr>"

definition bookEntry :: "BookSubscription \<Rightarrow> TargetedSubscriber" where
  "bookEntry sub =
     \<lparr>t_userId = userId sub, t_userEmail = userEmail sub, t_userName = userName sub,
      subscriptionType = Book,
      t_categoryId = None, t_categoryName = None,
      t_bookId = Some (bookId sub), t_bookTitle = Some (bookTitle sub)\<rparr>"

text \<open>The bodies of the two \<^verbatim>\<open>forEach\<close> loops.\<close>

definition setCategorySubscriber ::
  "CategorySubscription \<Rightarrow> (string \<times> TargetedSubscriber) list \<Rightarrow> (string \<times> TargetedSubscriber) list"
where
  "setCategorySubscriber sub subscribers =
     AList.update (userId sub) (categoryEntry sub) subscribers"

definition setBookSubscriber ::
  "BookSubscription \<Rightarrow> (string \<times> TargetedSubscriber) list \<Rightarrow> (string \<times> TargetedSubscriber) list"
where
  "setBookSubscriber sub subscribers =
     (case map_of subscribers (userId sub) of
        Some existing \<Rightarrow>
          AList.update (userId sub)
            (existing\<lparr>subscriptionType := Both, t_bookId := Some (bookId sub),
                      t_bookTitle := Some (bookTitle sub)\<rparr>)
            subscribers
      | None \<Rightarrow> AList.update (userId sub) (bookEntry sub) subscribers)"

text \<open>
  \<^verbatim>\<open>getTargetedSubscribers(categoryName, bookId = null)\<close>. The regular-expression
  engine is not code of the repository and is a parameter: \<open>regexp src\<close> stands for
  \<^verbatim>\<open>new RegExp(src, 'i')\<close> used as a \<^verbatim>\<open>$regex\<close> filter, \<open>None\<close> when the constructor
  throws a SyntaxError, otherwise the test the filter applies to a stored name. The
  constructor is called inside the function's \<^verbatim>\<open>try\<close>, whose \<^verbatim>\<open>catch\<close> returns the
  empty array. A \<^verbatim>\<open>bookId\<close> that is \<^verbatim>\<open>null\<close> or empty is false in \<^verbatim>\<open>if (bookId)\<close>.
\<close>

definition getTargetedSubscribers ::
  "(string \<Rightarrow> (string \<Rightarrow> bool) option) \<Rightarrow> CategorySubscription list \<Rightarrow>
   BookSubscription list \<Rightarrow> string \<Rightarrow> string option \<Rightarrow> TargetedSubscriber list"
where
  "getTargetedSubscribers regexp categories books cname bid =
     (case regexp (''^'' @ cname @ ''$'') of
        None \<Rightarrow> []
      | Some test \<Rightarrow>
          (let categorySubscribers = filter (\<lambda>s. test (categoryName s) \<and> isActive s) categories;
               subscribers = fold setCategorySubscriber categorySubscribers []
           in map snd
             (case bid of
                None \<Rightarrow> subscribers
              | Some b \<Rightarrow>
                  if b = [] then subscribers
                  else fold setBookSubscriber
                         (filter (\<lambda>s. bookId s = b \<and> isActive s) books) subscribers)))"

subsection \<open>A fragment of the regular-expression engine\<close>

text \<open>
  The patterns \<^verbatim>\<open>^body$\<close> whose body consists of ASCII characters other than
  the backslash and \<^verbatim>\<open>^ $ ( ) [ ] { } |\<close>: every character stands for itself except \<^verbatim>\<open>.\<close>, which
  matches any one character, and \<^verbatim>\<open>* + ?\<close>, which quantify the character before them
  (and may be followed by the lazy mark \<^verbatim>\<open>?\<close>). A quantifier with nothing before it
  to repeat makes the constructor throw. Under the flag \<^verbatim>\<open>i\<close> two characters match when
  their upper-case forms agree. Subjects are ASCII text without line breaks: the
  constructor runs in the service and the filter in the store, and it is on such
  subjects that the two engines are sure to agree.
\<close>

datatype rx_atom = Lit char | AnyChar

datatype rx_quant = Once | ZeroOrMore | OneOrMore | ZeroOrOne

datatype pattern = SyntaxError | Unmodelled | Pattern "(rx_atom \<times> rx_quant) list"

definition canonicalize :: "char \<Rightarrow> char" where
  "canonicalize c =
     (let n = (of_char c :: nat) in if 97 \<le> n \<and> n \<le> 122 then char_of (n - 32) else c)"

fun atom_matches :: "rx_atom \<Rightarrow> char \<Rightarrow> bool" where
  "atom_matches (Lit a) c = (canonicalize a = canonicalize c)"
| "atom_matches AnyChar c = True"

fun rx_match :: "(rx_atom \<times> rx_quant) list \<Rightarrow> string \<Rightarrow> bool" where
  "rx_match [] s = (s = [])"
| "rx_match ((a, Once) # p) s =
     (case s of [] \<Rightarrow> False | c # cs \<Rightarrow> atom_matches a c \<and> rx_match p cs)"
| "rx_match ((a, ZeroOrOne) # p) s =
     (rx_match p s \<or> (case s of [] \<Rightarrow> False | c # cs \<Rightarrow> atom_matches a c \<and> rx_match p cs))"
| "rx_match ((a, ZeroOrMore) # p) s =
     (rx_match p s \<or>
      (case s of [] \<Rightarrow> False | c # cs \<Rightarrow> atom_matches a c \<and> rx_match ((a, ZeroOrMore) # p) cs))"
| "rx_match ((a, OneOrMore) # p) s =
     (case s of [] \<Rightarrow> False | c # cs \<Rightarrow> atom_matches a c \<and> rx_match ((a, ZeroOrMore) # p) cs)"

definition is_quantifier :: "char \<Rightarrow> bool" where
  "is_quantifier c \<longleftrightarrow> c = CHR ''*'' \<or> c = CHR ''+'' \<or> c = CHR ''?''"

definition quantifier :: "char \<Rightarrow> rx_quant" where
  "quantifier c = (if c = CHR ''*'' then ZeroOrMore else if c = CHR ''+'' then OneOrMore else ZeroOrOne)"

definition atom :: "char \<Rightarrow> rx_atom" where
  "atom c = (if c = CHR ''.'' then AnyChar else Lit c)"

fun parse_body :: "string \<Rightarrow> (rx_atom \<times> rx_quant) list option" where
  "parse_body [] = Some []"
| "parse_body [c] = (if is_quantifier c then None else Some [(atom c, Once)])"
| "parse_body (c # q # cs) =
     (if is_quantifier c then None
      else if is_quantifier q then
        (case cs of
           [] \<Rightarrow> Some [(atom c, quantifier q)]
         | l # cs' \<Rightarrow>
             map_option ((#) (atom c, quantifier q))
               (if l = CHR ''?'' then parse_body cs' else parse_body cs))
      else map_option ((#) (atom c, Once)) (parse_body (q # cs)))"

definition modelled_char :: "char \<Rightarrow> bool" where
  "modelled_char c \<longleftrightarrow>
     (of_char c :: nat) < 128 \<and> c \<noteq> CHR 0x5C \<and> c \<notin> set ''^$()[]{}|''"

definition plain_subject :: "string \<Rightarrow> bool" where
  "plain_subject s \<longleftrightarrow>
     list_all (\<lambda>c. (of_char c :: nat) < 128 \<and> c \<noteq> CHR 0x0A \<and> c \<noteq> CHR 0x0D) s"

definition RegExp_i :: "string \<Rightarrow> pattern" where
  "RegExp_i src =
     (case src of
        [] \<Rightarrow> Unmodelled
      | c # rest \<Rightarrow>
          if c = CHR ''^'' \<and> rest \<noteq> [] \<and> last rest = CHR ''$'' \<and>
             list_all modelled_char (butlast rest)
          then (case parse_body (butlast rest) of None \<Rightarrow> SyntaxError | Some p \<Rightarrow> Pattern p)
          else Unmodelled)"

text \<open>
  The engine as the resolver's parameter. Outside the fragment nothing is said of it:
  the value is left unspecified there, so that no statement about such a pattern or
  subject can be derived from this definition.
\<close>

definition regexp_fragment :: "string \<Rightarrow> (string \<Rightarrow> bool) option" where
  "regexp_fragment src =
     (case RegExp_i src of
        SyntaxError \<Rightarrow> None
      | Pattern p \<Rightarrow>
          Some (\<lambda>s. if plain_subject s then rx_match p s else undefined)
      | Unmodelled \<Rightarrow> undefined)"

subsection \<open>The map of subscribers\<close>

text \<open>
  Every key of the map is the userId of its entry and occurs once; the resolver's
  result is then one entry per key.
\<close>

definition keyed :: "(string \<times> TargetedSubscriber) list \<Rightarrow> bool" where
  "keyed m \<longleftrightarrow> distinct (map fst m) \<and> (\<forall>k v. map_of m k = Some v \<longrightarrow> t_userId v = k)"

lemma keyed_Nil: "keyed []"
  by (simp add: keyed_def)

lemma keyed_update:
  assumes "keyed m" "t_userId v = k"
  shows "keyed (AList.update k v m)"
  using assms by (auto simp: keyed_def distinct_update update_conv')

lemma keyed_setCategorySubscriber: "keyed m \<Longrightarrow> keyed (setCategorySubscriber sub m)"
  unfolding setCategorySubscriber_def by (rule keyed_update) (simp_all add: categoryEntry_def)

lemma keyed_setBookSubscriber:
  assumes "keyed m"
  shows "keyed (setBookSubscriber sub m)"
proof (cases "map_of m (userId sub)")
  case None
  then show ?thesis unfolding setBookSubscriber_def
    by (simp add: keyed_update[OF assms] bookEntry_def)
next
  case (Some existing)
  with assms have "t_userId existing = userId sub" by (simp add: keyed_def)
  with Some show ?thesis unfolding setBookSubscriber_def
    by (simp add: keyed_update[OF assms])
qed

lemma keyed_fold_category: "keyed m \<Longrightarrow> keyed (fold setCategorySubscriber subs m)"
  by (induction subs arbitrary: m) (simp_all add: keyed_setCategorySubscriber)

lemma keyed_fold_book: "keyed m \<Longrightarrow> keyed (fold setBookSubscriber subs m)"
  by (induction subs arbitrary: m) (simp_all add: keyed_setBookSubscriber)

lemma keyed_Cons:
  assumes "keyed ((k, v) # m)"
  shows "keyed m" "t_userId v = k" "map_of m k = None"
    "\<And>k' v'. map_of m k' = Some v' \<Longrightarrow> k' \<noteq> k \<and> t_userId v' = k'"
proof -
  from assms have d: "distinct (map fst m)" and nk: "k \<notin> fst ` set m"
    and all: "\<And>k' v'. map_of ((k, v) # m) k' = Some v' \<Longrightarrow> t_userId v' = k'"
    by (auto simp: keyed_def)
  from nk show none: "map_of m k = None" by (simp add: map_of_eq_None_iff)
  from all[of k v] show "t_userId v = k" by simp
  show rest: "k' \<noteq> k \<and> t_userId v' = k'" if "map_of m k' = Some v'" for k' v'
  proof -
    from that none have ne: "k' \<noteq> k" by auto
    with all[of k' v'] that show ?thesis by simp
  qed
  from d rest show "keyed m" by (simp add: keyed_def)
qed

lemma keyed_values:
  "keyed m \<Longrightarrow> map t_userId (map snd m) = map fst m"
proof (induction m)
  case Nil
  then show ?case by simp
next
  case (Cons kv m)
  obtain k v where kv: "kv = (k, v)" by (cases kv)
  from keyed_Cons(1,2)[OF Cons.prems[unfolded kv]] Cons.IH kv show ?case by simp
qed

lemma keyed_entries_of:
  "keyed m \<Longrightarrow>
   filter (\<lambda>e. t_userId e = u) (map snd m) = (case map_of m u of None \<Rightarrow> [] | Some e \<Rightarrow> [e])"
proof (induction m)
  case Nil
  then show ?case by simp
next
  case (Cons kv m)
  obtain k v where kv: "kv = (k, v)" by (cases kv)
  note c = keyed_Cons[OF Cons.prems[unfolded kv]]
  have ih: "filter (\<lambda>e. t_userId e = u) (map snd m) =
      (case map_of m u of None \<Rightarrow> [] | Some e \<Rightarrow> [e])"
    by (rule Cons.IH[OF c(1)])
  show ?case
  proof (cases "k = u")
    case True
    with c(3) have "map_of m u = None" by simp
    with ih True kv c(2) show ?thesis by simp
  next
    case False
    with ih kv c(2) show ?thesis by simp
  qed
qed

lemma keyed_mem:
  assumes "keyed m"
  shows "e \<in> set (map snd m) \<longleftrightarrow> map_of m (t_userId e) = Some e"
proof
  assume "e \<in> set (map snd m)"
  then obtain k where k: "(k, e) \<in> set m" by auto
  with assms have "map_of m k = Some e" by (simp add: keyed_def)
  moreover from this assms have "t_userId e = k" by (simp add: keyed_def)
  ultimately show "map_of m (t_userId e) = Some e" by simp
next
  assume "map_of m (t_userId e) = Some e"
  then have "(t_userId e, e) \<in> set m" by (rule map_of_SomeD)
  then show "e \<in> set (map snd m)" by force
qed

subsection \<open>The two passes\<close>

lemma category_pass_other:
  "u \<notin> userId ` set subs \<Longrightarrow> map_of (fold setCategorySubscriber subs m) u = map_of m u"
  by (induction subs arbitrary: m) (auto simp: setCategorySubscriber_def update_conv')

lemma category_pass_user:
  "u \<in> userId ` set subs \<Longrightarrow>
   \<exists>c\<in>set subs. userId c = u \<and> map_of (fold setCategorySubscriber subs m) u = Some (categoryEntry c)"
proof (induction subs arbitrary: m)
  case Nil
  then show ?case by simp
next
  case (Cons s subs)
  show ?case
  proof (cases "u \<in> userId ` set subs")
    case True
    from Cons.IH[OF True, of "setCategorySubscriber s m"] show ?thesis by auto
  next
    case False
    with Cons.prems have u: "userId s = u" by auto
    from category_pass_other[OF False, of "setCategorySubscriber s m"] u
    have "map_of (fold setCategorySubscriber (s # subs) m) u = Some (categoryEntry s)"
      by (simp add: setCategorySubscriber_def update_conv')
    with u show ?thesis by auto
  qed
qed

lemma category_pass_types:
  assumes "map_of (fold setCategorySubscriber subs []) u = Some e"
  shows "subscriptionType e = Category"
proof (cases "u \<in> userId ` set subs")
  case True
  from category_pass_user[OF True, of "[]"] assms show ?thesis
    by (auto simp: categoryEntry_def)
next
  case False
  from category_pass_other[OF False, of "[]"] assms show ?thesis by simp
qed

lemma setBookSubscriber_other:
  "u \<noteq> userId sub \<Longrightarrow> map_of (setBookSubscriber sub m) u = map_of m u"
  by (simp add: setBookSubscriber_def update_conv' split: option.splits)

lemma setBookSubscriber_user:
  "\<exists>e. map_of (setBookSubscriber sub m) (userId sub) = Some e \<and>
       t_bookId e = Some (bookId sub) \<and> t_bookTitle e = Some (bookTitle sub) \<and>
       subscriptionType e \<noteq> Category \<and>
       (map_of m (userId sub) \<noteq> None \<longrightarrow> subscriptionType e = Both)"
  by (cases "map_of m (userId sub)")
     (simp_all add: setBookSubscriber_def update_conv' bookEntry_def)

lemma setBookSubscriber_keeps:
  "map_of m u \<noteq> None \<Longrightarrow> map_of (setBookSubscriber sub m) u \<noteq> None"
  by (cases "u = userId sub")
     (auto simp: setBookSubscriber_def update_conv' split: option.splits)

lemma book_pass_other:
  "u \<notin> userId ` set subs \<Longrightarrow> map_of (fold setBookSubscriber subs m) u = map_of m u"
  by (induction subs arbitrary: m) (simp_all add: setBookSubscriber_other)

lemma book_pass_user:
  "u \<in> userId ` set subs \<Longrightarrow>
   \<exists>b\<in>set subs. userId b = u \<and>
     (\<exists>e. map_of (fold setBookSubscriber subs m) u = Some e \<and>
          t_bookId e = Some (bookId b) \<and> t_bookTitle e = Some (bookTitle b) \<and>
          subscriptionType e \<noteq> Category \<and>
          (map_of m u \<noteq> None \<longrightarrow> subscriptionType e = Both))"
proof (induction subs arbitrary: m)
  case Nil
  then show ?case by simp
next
  case (Cons s subs)
  show ?case
  proof (cases "u \<in> userId ` set subs")
    case True
    from Cons.IH[OF True, of "setBookSubscriber s m"]
    obtain b e where b: "b \<in> set subs" "userId b = u"
      and e: "map_of (fold setBookSubscriber subs (setBookSubscriber s m)) u = Some e"
        "t_bookId e = Some (bookId b)" "t_bookTitle e = Some (bookTitle b)"
        "subscriptionType e \<noteq> Category"
        "map_of (setBookSubscriber s m) u \<noteq> None \<longrightarrow> subscriptionType e = Both"
      by blast
    from e(5) setBookSubscriber_keeps[of m u s]
    have "map_of m u \<noteq> None \<longrightarrow> subscriptionType e = Both" by blast
    with b e(1-4) show ?thesis by (intro bexI[of _ b]) simp_all
  next
    case False
    with Cons.prems have u: "userId s = u" by auto
    from setBookSubscriber_user[of s m] u
    obtain e where e: "map_of (setBookSubscriber s m) u = Some e"
        "t_bookId e = Some (bookId s)" "t_bookTitle e = Some (bookTitle s)"
        "subscriptionType e \<noteq> Category"
        "map_of m u \<noteq> None \<longrightarrow> subscriptionType e = Both"
      by blast
    from book_pass_other[OF False, of "setBookSubscriber s m"] e(1)
    have "map_of (fold setBookSubscriber (s # subs) m) u = Some e" by simp
    with u e(2-5) show ?thesis by (intro bexI[of _ s]) simp_all
  qed
qed

subsection \<open>The resolver's result\<close>

definition subscribersMap ::
  "(string \<Rightarrow> bool) \<Rightarrow> CategorySubscription list \<Rightarrow> BookSubscription list \<Rightarrow>
   string option \<Rightarrow> (string \<times> TargetedSubscriber) list"
where
  "subscribersMap test categories books bid =
     (case bid of
        None \<Rightarrow> fold setCategorySubscriber
                 (filter (\<lambda>s. test (categoryName s) \<and> isActive s) categories) []
      | Some b \<Rightarrow>
          if b = [] then fold setCategorySubscriber
                 (filter (\<lambda>s. test (categoryName s) \<and> isActive s) categories) []
          else fold setBookSubscriber (filter (\<lambda>s. bookId s = b \<and> isActive s) books)
                 (fold setCategorySubscriber
                    (filter (\<lambda>s. test (categoryName s) \<and> isActive s) categories) []))"

lemma getTargetedSubscribers_throws:
  "regexp (''^'' @ cname @ ''$'') = None \<Longrightarrow>
   getTargetedSubscribers regexp categories books cname bid = []"
  by (simp add: getTargetedSubscribers_def)

lemma getTargetedSubscribers_values:
  "regexp (''^'' @ cname @ ''$'') = Some test \<Longrightarrow>
   getTargetedSubscribers regexp categories books cname bid =
     map snd (subscribersMap test categories books bid)"
  by (simp add: getTargetedSubscribers_def subscribersMap_def Let_def split: option.splits)

lemma keyed_subscribersMap: "keyed (subscribersMap test categories books bid)"
  by (simp add: subscribersMap_def keyed_fold_book keyed_fold_category keyed_Nil
      split: option.splits)

lemma getTargetedSubscribers_distinct:
  "distinct (map t_userId (getTargetedSubscribers regexp categories books cname bid))"
proof (cases "regexp (''^'' @ cname @ ''$'')")
  case None
  then show ?thesis by (simp add: getTargetedSubscribers_throws)
next
  case (Some test)
  let ?m = "subscribersMap test categories books bid"
  have "getTargetedSubscribers regexp categories books cname bid = map snd ?m"
    using Some by (rule getTargetedSubscribers_values[of regexp cname test])
  then have "map t_userId (getTargetedSubscribers regexp categories books cname bid) = map fst ?m"
    using keyed_values[OF keyed_subscribersMap[of test categories books bid]] by (simp only:)
  moreover have "distinct (map fst ?m)"
    using keyed_subscribersMap[of test categories books bid] by (simp add: keyed_def)
  ultimately show ?thesis by (simp only:)
qed

lemma resolver_both:
  assumes rx: "regexp (''^'' @ cname @ ''$'') = Some test"
    and c: "c \<in> set categories" "userId c = u" "isActive c" "test (categoryName c)"
    and b: "b \<in> set books" "userId b = u" "isActive b" "bookId b = bid" "bid \<noteq> []"
  shows "\<exists>e. filter (\<lambda>e. t_userId e = u)
              (getTargetedSubscribers regexp categories books cname (Some bid)) = [e] \<and>
            subscriptionType e = Both \<and> t_bookId e = Some bid \<and>
            (\<exists>b'\<in>set books. userId b' = u \<and> bookId b' = bid \<and> isActive b' \<and>
                t_bookTitle e = Some (bookTitle b'))"
proof -
  let ?cs = "filter (\<lambda>s. test (categoryName s) \<and> isActive s) categories"
  let ?bs = "filter (\<lambda>s. bookId s = bid \<and> isActive s) books"
  let ?m1 = "fold setCategorySubscriber ?cs []"
  from c have "u \<in> userId ` set ?cs" by force
  from category_pass_user[OF this, of "[]"] have m1: "map_of ?m1 u \<noteq> None" by auto
  from b have "u \<in> userId ` set ?bs" by force
  from book_pass_user[OF this, of ?m1] m1
  obtain b' e where b': "b' \<in> set ?bs" "userId b' = u"
    and e: "map_of (fold setBookSubscriber ?bs ?m1) u = Some e"
      "t_bookId e = Some (bookId b')" "t_bookTitle e = Some (bookTitle b')"
      "subscriptionType e = Both"
    by blast
  from b(5) have map: "subscribersMap test categories books (Some bid) = fold setBookSubscriber ?bs ?m1"
    by (simp add: subscribersMap_def)
  from keyed_entries_of[OF keyed_subscribersMap[of test categories books "Some bid"], of u] e(1)
  have "filter (\<lambda>e. t_userId e = u)
      (getTargetedSubscribers regexp categories books cname (Some bid)) = [e]"
    by (simp add: getTargetedSubscribers_values[of regexp cname test, OF rx] map)
  moreover from b' have "b' \<in> set books" "bookId b' = bid" "isActive b'" by simp_all
  ultimately show ?thesis using e(2-4) b'(2) by blast
qed

lemma resolver_category_only:
  assumes rx: "regexp (''^'' @ cname @ ''$'') = Some test"
    and c: "c \<in> set categories" "userId c = u" "isActive c" "test (categoryName c)"
    and nb: "\<forall>b\<in>set books. \<not> (userId b = u \<and> isActive b \<and> Some (bookId b) = bid)"
  shows "\<exists>e. filter (\<lambda>e. t_userId e = u)
              (getTargetedSubscribers regexp categories books cname bid) = [e] \<and>
            subscriptionType e = Category"
proof -
  let ?cs = "filter (\<lambda>s. test (categoryName s) \<and> isActive s) categories"
  let ?m1 = "fold setCategorySubscriber ?cs []"
  from c have "u \<in> userId ` set ?cs" by force
  from category_pass_user[OF this, of "[]"]
  obtain e where e: "map_of ?m1 u = Some e" "subscriptionType e = Category"
    by (auto simp: categoryEntry_def)
  have "map_of (subscribersMap test categories books bid) u = Some e"
  proof (cases bid)
    case None
    with e(1) show ?thesis by (simp add: subscribersMap_def)
  next
    case (Some b)
    show ?thesis
    proof (cases "b = []")
      case True
      with Some e(1) show ?thesis by (simp add: subscribersMap_def)
    next
      case False
      let ?bs = "filter (\<lambda>s. bookId s = b \<and> isActive s) books"
      from nb Some have "u \<notin> userId ` set ?bs" by auto
      from book_pass_other[OF this, of ?m1] e(1) Some False show ?thesis
        by (simp add: subscribersMap_def)
    qed
  qed
  with keyed_entries_of[OF keyed_subscribersMap[of test categories books bid], of u]
  have "filter (\<lambda>e. t_userId e = u)
      (getTargetedSubscribers regexp categories books cname bid) = [e]"
    by (simp add: getTargetedSubscribers_values[of regexp cname test, OF rx])
  with e(2) show ?thesis by blast
qed

lemma resolver_book_level:
  assumes "e \<in> set (getTargetedSubscribers regexp categories books cname bid)"
    and "subscriptionType e \<noteq> Category"
  shows "\<exists>b\<in>set books. userId b = t_userId e \<and> isActive b \<and> Some (bookId b) = bid \<and>
           bookId b \<noteq> []"
proof (cases "regexp (''^'' @ cname @ ''$'')")
  case None
  with assms(1) show ?thesis by (simp add: getTargetedSubscribers_throws)
next
  case (Some test)
  let ?cs = "filter (\<lambda>s. test (categoryName s) \<and> isActive s) categories"
  let ?m1 = "fold setCategorySubscriber ?cs []"
  from assms(1) Some
  have e: "map_of (subscribersMap test categories books bid) (t_userId e) = Some e"
    using keyed_mem[OF keyed_subscribersMap[of test categories books bid], of e]
    by (simp only: getTargetedSubscribers_values[of regexp cname test, OF Some])
  have first: False if "map_of ?m1 (t_userId e) = Some e"
    using category_pass_types[OF that] assms(2) by simp
  show ?thesis
  proof (cases bid)
    case None
    with e first show ?thesis by (simp add: subscribersMap_def)
  next
    case (Some b)
    show ?thesis
    proof (cases "b = []")
      case True
      with Some e first show ?thesis by (simp add: subscribersMap_def)
    next
      case False
      let ?bs = "filter (\<lambda>s. bookId s = b \<and> isActive s) books"
      have "t_userId e \<in> userId ` set ?bs"
      proof (rule ccontr)
        assume "t_userId e \<notin> userId ` set ?bs"
        from book_pass_other[OF this, of ?m1] e Some False first show False
          by (simp add: subscribersMap_def)
      qed
      with Some False show ?thesis by auto
    qed
  qed
qed

subsection \<open>Category names as patterns\<close>

text \<open>
  A name without \<^verbatim>\<open>. * + ?\<close> (and inside the fragment) is a pattern that matches
  exactly the names equal to it up to the case of ASCII letters.
\<close>

definition plain_name :: "string \<Rightarrow> bool" where
  "plain_name s \<longleftrightarrow> list_all (\<lambda>c. modelled_char c \<and> \<not> is_quantifier c \<and> c \<noteq> CHR ''.'') s"

lemma parse_body_plain:
  "list_all (\<lambda>c. \<not> is_quantifier c \<and> c \<noteq> CHR ''.'') s \<Longrightarrow>
   parse_body s = Some (map (\<lambda>c. (Lit c, Once)) s)"
  by (induction s rule: parse_body.induct) (simp_all add: atom_def)

lemma rx_match_literal:
  "rx_match (map (\<lambda>c. (Lit c, Once)) n) s \<longleftrightarrow> map canonicalize n = map canonicalize s"
proof (induction n arbitrary: s)
  case Nil
  then show ?case by auto
next
  case (Cons c n)
  then show ?case by (cases s) auto
qed

lemma RegExp_i_plain:
  assumes "plain_name cname"
  shows "RegExp_i (''^'' @ cname @ ''$'') = Pattern (map (\<lambda>c. (Lit c, Once)) cname)"
proof -
  from assms have m: "list_all modelled_char cname"
    and p: "list_all (\<lambda>c. \<not> is_quantifier c \<and> c \<noteq> CHR ''.'') cname"
    by (simp_all add: plain_name_def list_all_iff)
  from m parse_body_plain[OF p] show ?thesis
    by (simp add: RegExp_i_def)
qed

lemma plain_name_exact_match:
  assumes "plain_name cname" "plain_subject s"
  shows "\<exists>test. regexp_fragment (''^'' @ cname @ ''$'') = Some test \<and>
           (test s \<longleftrightarrow> map canonicalize cname = map canonicalize s)"
  unfolding regexp_fragment_def RegExp_i_plain[OF assms(1)]
  using assms(2) by (simp add: rx_match_literal)

text \<open>
  For such names the resolver merges the two subscriptions of a user as intended: one
  entry of type \<open>Both\<close> for the book the user follows, one entry of type
  \<open>Category\<close> for any other book.
\<close>

lemma resolver_dedup_plain_name:
  assumes plain: "plain_name cname" "plain_subject cname"
    and c: "c \<in> set categories" "userId c = u" "isActive c" "categoryName c = cname"
    and b: "b \<in> set books" "userId b = u" "isActive b" "bookId b = bid" "bid \<noteq> []"
    and nb: "\<forall>b'\<in>set books. \<not> (userId b' = u \<and> isActive b' \<and> Some (bookId b') = other)"
  shows "\<exists>e. filter (\<lambda>e. t_userId e = u)
              (getTargetedSubscribers regexp_fragment categories books cname (Some bid)) = [e] \<and>
            subscriptionType e = Both \<and> t_bookId e = Some bid"
    and "\<exists>e. filter (\<lambda>e. t_userId e = u)
              (getTargetedSubscribers regexp_fragment categories books cname other) = [e] \<and>
            subscriptionType e = Category"
proof -
  from plain_name_exact_match[OF plain]
  obtain test where test: "regexp_fragment (''^'' @ cname @ ''$'') = Some test" "test cname"
    by auto
  from c(4) test(2) have t: "test (categoryName c)" by simp
  from resolver_both[of regexp_fragment cname test, OF test(1) c(1-3) t b]
  show "\<exists>e. filter (\<lambda>e. t_userId e = u)
              (getTargetedSubscribers regexp_fragment categories books cname (Some bid)) = [e] \<and>
            subscriptionType e = Both \<and> t_bookId e = Some bid"
    by blast
  from resolver_category_only[of regexp_fragment cname test, OF test(1) c(1-3) t nb]
  show "\<exists>e. filter (\<lambda>e. t_userId e = u)
              (getTargetedSubscribers regexp_fragment categories books cname other) = [e] \<and>
            subscriptionType e = Category" .
qed

text \<open>
  C1, at the input where it fails. User \<open>u1\<close> holds an active subscription to the
  category named \<open>C++\<close> and an active subscription to book \<open>b1\<close>. The name is not a
  valid pattern: the constructor throws, the \<^verbatim>\<open>catch\<close> returns the empty array, and
  the resolver has no entry for \<open>u1\<close>, neither for (\<open>C++\<close>, \<open>b1\<close>) nor for
  (\<open>C++\<close>, \<open>b2\<close>).
\<close>

theorem resolver_loses_subscriber_of_both:
  "getTargetedSubscribers regexp_fragment
     [\<lparr>userId = ''u1'', userEmail = ''u1@lib.org'', userName = ''Ann'', isActive = True,
       subscribedAt = 5, categoryId = ''c1'', categoryName = ''C++''\<rparr>]
     [\<lparr>userId = ''u1'', userEmail = ''u1@lib.org'', userName = ''Ann'', isActive = True,
       subscribedAt = 6, bookId = ''b1'', bookTitle = ''Effective C++'', bookCategory = ''C++''\<rparr>]
     ''C++'' (Some ''b1'') = [] \<and>
   getTargetedSubscribers regexp_fragment
     [\<lparr>userId = ''u1'', userEmail = ''u1@lib.org'', userName = ''Ann'', isActive = True,
       subscribedAt = 5, categoryId = ''c1'', categoryName = ''C++''\<rparr>]
     [\<lparr>userId = ''u1'', userEmail = ''u1@lib.org'', userName = ''Ann'', isActive = True,
       subscribedAt = 6, bookId = ''b1'', bookTitle = ''Effective C++'', bookCategory = ''C++''\<rparr>]
     ''C++'' (Some ''b2'') = []"
proof -
  have "regexp_fragment (''^'' @ ''C++'' @ ''$'') = None"
    by (simp add: regexp_fragment_def RegExp_i_def modelled_char_def is_quantifier_def)
  then show ?thesis by (simp add: getTargetedSubscribers_throws)
qed

text \<open>
  C7, at the inputs where it fails. The category name is used as a pattern, not as a
  string: the query \<open>a.c\<close> selects the subscriber of the category named \<open>abc\<close>, which
  is not equal to \<open>a.c\<close> up to case, and the query \<open>C++\<close> does not select the
  subscriber of the category named \<open>C++\<close>.
\<close>

theorem category_name_used_as_pattern:
  "map t_userId
     (getTargetedSubscribers regexp_fragment
        [\<lparr>userId = ''u1'', userEmail = ''u1@lib.org'', userName = ''Ann'', isActive = True,
          subscribedAt = 5, categoryId = ''c1'', categoryName = ''abc''\<rparr>]
        [] ''a.c'' None) = [''u1''] \<and>
   map canonicalize ''a.c'' \<noteq> map canonicalize ''abc'' \<and>
   getTargetedSubscribers regexp_fragment
     [\<lparr>userId = ''u2'', userEmail = ''u2@lib.org'', userName = ''Bob'', isActive = True,
       subscribedAt = 5, categoryId = ''c2'', categoryName = ''C++''\<rparr>]
     [] ''C++'' None = []"
proof -
  have 1: "regexp_fragment (''^'' @ ''C++'' @ ''$'') = None"
    by (simp add: regexp_fragment_def RegExp_i_def modelled_char_def is_quantifier_def)
  have "RegExp_i (''^'' @ ''a.c'' @ ''$'') =
      Pattern [(Lit CHR ''a'', Once), (AnyChar, Once), (Lit CHR ''c'', Once)]"
    by (simp add: RegExp_i_def modelled_char_def is_quantifier_def atom_def)
  then have 2: "regexp_fragment (''^'' @ ''a.c'' @ ''$'') =
      Some (\<lambda>s. if plain_subject s
                 then rx_match [(Lit CHR ''a'', Once), (AnyChar, Once), (Lit CHR ''c'', Once)] s
                 else undefined)"
    by (simp add: regexp_fragment_def)
  have 3: "map t_userId
     (getTargetedSubscribers regexp_fragment
        [\<lparr>userId = ''u1'', userEmail = ''u1@lib.org'', userName = ''Ann'', isActive = True,
          subscribedAt = 5, categoryId = ''c1'', categoryName = ''abc''\<rparr>]
        [] ''a.c'' None) = [''u1'']"
    unfolding getTargetedSubscribers_def 2
    by (simp add: setCategorySubscriber_def categoryEntry_def canonicalize_def plain_subject_def)
  have 4: "map canonicalize ''a.c'' \<noteq> map canonicalize ''abc''"
    by code_simp
  from 1 3 4 show ?thesis by (simp add: getTargetedSubscribers_throws)
qed

section \<open>Notification fan-out\<close>

text \<open>
  A document of the \<^verbatim>\<open>notifications\<close> collection (models/Notification.js). The
  metadata object is a list of named values; \<^verbatim>\<open>isRead\<close> and \<^verbatim>\<open>readAt\<close> take the
  schema's defaults when a document is inserted.
\<close>

record Notification =
  notificationId :: string
  n_userId :: string
  n_userEmail :: string
  n_type :: string
  n_title :: string
  n_message :: string
  relatedBookId :: "string option"
  relatedBookTitle :: "string option"
  relatedCategoryId :: "string option"
  relatedCategoryName :: "string option"
  metadata :: "(string \<times> string) list"
  isRead :: bool
  readAt :: "int option"
  priority :: string

record notificationData =
  nd_type :: string
  nd_title :: string
  nd_message :: string
  nd_relatedBookId :: "string option"
  nd_relatedBookTitle :: "string option"
  nd_relatedCategoryId :: "string option"
  nd_relatedCategoryName :: "string option"
  nd_metadata :: "(string \<times> string) list option"
  nd_priority :: "string option"

text \<open>
  A field of an event's data that may be missing is a \<open>string option\<close>. In a
  template literal a missing field prints as \<^verbatim>\<open>undefined\<close>; in \<^verbatim>\<open>x || y\<close> a missing or
  empty \<open>x\<close> gives \<open>y\<close>.
\<close>

definition printed :: "string option \<Rightarrow> string" where
  "printed x = (case x of None \<Rightarrow> ''undefined'' | Some s \<Rightarrow> s)"

definition or_null :: "string option \<Rightarrow> string option" where
  "or_null x = (case x of None \<Rightarrow> None | Some s \<Rightarrow> if s = [] then None else Some s)"

definition or_else :: "string option \<Rightarrow> string \<Rightarrow> string" where
  "or_else x d = (case x of None \<Rightarrow> d | Some s \<Rightarrow> if s = [] then d else s)"

text \<open>
  The schema's validation of one document: the required strings are present and the
  enumerated fields hold one of their values.
\<close>

definition notification_types :: "string list" where
  "notification_types =
     [''BOOK_ADDED'', ''BOOK_UPDATED'', ''BOOK_AVAILABLE'', ''BOOK_BORROWED'', ''BOOK_RETURNED'',
      ''DUE_DATE_REMINDER'', ''OVERDUE_NOTICE'', ''CATEGORY_UPDATE'', ''SYSTEM'']"

definition priorities :: "string list" where
  "priorities = [''low'', ''normal'', ''high'', ''urgent'']"

definition notification_valid :: "Notification \<Rightarrow> bool" where
  "notification_valid n \<longleftrightarrow>
     notificationId n \<noteq> [] \<and> n_userId n \<noteq> [] \<and> n_userEmail n \<noteq> [] \<and>
     n_type n \<in> set notification_types \<and> n_title n \<noteq> [] \<and> n_message n \<noteq> [] \<and>
     priority n \<in> set priorities"

text \<open>
  \<^verbatim>\<open>Notification.insertMany(docs)\<close>, ordered: every document is validated first, and
  one invalid document rejects the batch with nothing written; the documents are then
  written in order, and a \<^verbatim>\<open>notificationId\<close> already in the collection (the unique
  index) stops the write there, the documents before it staying written. The second
  component is \<open>None\<close> when the call throws.
\<close>

fun insertOrdered :: "Notification list \<Rightarrow> Notification list \<Rightarrow> Notification list \<times> bool" where
  "insertOrdered [] coll = (coll, True)"
| "insertOrdered (d # ds) coll =
     (if notificationId d \<in> notificationId ` set coll then (coll, False)
      else insertOrdered ds (coll @ [d]))"

definition insertMany ::
  "Notification list \<Rightarrow> Notification list \<Rightarrow> Notification list \<times> Notification list option"
where
  "insertMany docs coll =
     (if \<not> list_all notification_valid docs then (coll, None)
      else (case insertOrdered docs coll of
              (coll', True) \<Rightarrow> (coll', Some docs)
            | (coll', False) \<Rightarrow> (coll', None)))"

text \<open>
  \<^verbatim>\<open>createBatchNotifications(subscribers, notificationData)\<close>. The identifier of the
  \<open>i\<close>-th document is \<^verbatim>\<open>NOTIF-\<close> followed by the clock and the random part, which the
  parameter \<open>stamp\<close> supplies. The result is the collection afterwards and the array
  returned (empty when the insertion threw).
\<close>

definition newNotification ::
  "(nat \<Rightarrow> string) \<Rightarrow> notificationData \<Rightarrow> nat \<Rightarrow> TargetedSubscriber \<Rightarrow> Notification"
where
  "newNotification stamp nd i sub =
     \<lparr>notificationId = ''NOTIF-'' @ stamp i,
      n_userId = t_userId sub, n_userEmail = t_userEmail sub,
      n_type = nd_type nd, n_title = nd_title nd, n_message = nd_message nd,
      relatedBookId = or_null (nd_relatedBookId nd),
      relatedBookTitle = or_null (nd_relatedBookTitle nd),
      relatedCategoryId = or_null (nd_relatedCategoryId nd),
      relatedCategoryName = or_null (nd_relatedCategoryName nd),
      metadata = (case nd_metadata nd of None \<Rightarrow> [] | Some m \<Rightarrow> m),
      isRead = False, readAt = None,
      priority = or_else (nd_priority nd) ''normal''\<rparr>"

definition batchDocuments ::
  "(nat \<Rightarrow> string) \<Rightarrow> TargetedSubscriber list \<Rightarrow> notificationData \<Rightarrow> Notification list"
where
  "batchDocuments stamp subscribers nd =
     map (\<lambda>(i, sub). newNotification stamp nd i sub) (enumerate 0 subscribers)"

definition createBatchNotifications ::
  "(nat \<Rightarrow> string) \<Rightarrow> TargetedSubscriber list \<Rightarrow> notificationData \<Rightarrow> Notification list \<Rightarrow>
   Notification list \<times> Notification list"
where
  "createBatchNotifications stamp subscribers nd coll =
     (case insertMany (batchDocuments stamp subscribers nd) coll of
        (coll', Some result) \<Rightarrow> (coll', result)
      | (coll', None) \<Rightarrow> (coll', []))"

subsection \<open>Email attempts\<close>

text \<open>
  \<^verbatim>\<open>sendNewBookNotificationEmail(data)\<close> never throws: it returns \<^verbatim>\<open>false\<close> when no
  transporter is configured or the address is missing, and otherwise \<^verbatim>\<open>true\<close> or
  \<^verbatim>\<open>false\<close> as \<^verbatim>\<open>transporter.sendMail\<close> resolves or rejects. \<open>delivered\<close> is that outcome.
\<close>

definition sendNewBookNotificationEmail :: "bool \<Rightarrow> bool \<Rightarrow> string \<Rightarrow> bool" where
  "sendNewBookNotificationEmail configured delivered address =
     (if \<not> configured then False else if address = [] then False else delivered)"

text \<open>
  The \<^verbatim>\<open>for (const subscriber of subscribers)\<close> loop of \<^verbatim>\<open>handleBookAdded\<close>: one
  attempt per subscriber, in order, each recorded with its recipient and outcome.
  \<open>delivered i\<close> is the outcome of the \<open>i\<close>-th call of \<^verbatim>\<open>sendMail\<close>.
\<close>

fun sendEmails ::
  "bool \<Rightarrow> (nat \<Rightarrow> bool) \<Rightarrow> nat \<Rightarrow> TargetedSubscriber list \<Rightarrow> (string \<times> bool) list"
where
  "sendEmails configured delivered i [] = []"
| "sendEmails configured delivered i (s # ss) =
     (t_userEmail s, sendNewBookNotificationEmail configured (delivered i) (t_userEmail s)) #
     sendEmails configured delivered (Suc i) ss"

subsection \<open>The handlers\<close>

record BookEventData =
  ev_bookId :: "string option"
  ev_title :: "string option"
  ev_author :: "string option"
  ev_category :: "string option"
  ev_coverImageUrl :: "string option"

text \<open>
  An entry of the in-memory audit log: its event type and its counters. The
  identifier, the timestamps, the copy of the event's data and the action texts are
  left out.
\<close>

record LogEntry =
  eventType :: string
  subscribersNotified :: nat
  emailsSent :: "nat option"

text \<open>
  What a handler reads and writes: the two subscription collections (read only), the
  notifications collection, the emails attempted and the audit log.
\<close>

record ServiceState =
  categorySubscriptions :: "CategorySubscription list"
  bookSubscriptions :: "BookSubscription list"
  notifications :: "Notification list"
  outbox :: "(string \<times> bool) list"
  eventLog :: "LogEntry list"

text \<open>
  A property of an object literal whose value is missing: the store keeps no entry
  for it.
\<close>

definition property :: "string \<Rightarrow> string option \<Rightarrow> (string \<times> string) list" where
  "property name x = (case x of None \<Rightarrow> [] | Some s \<Rightarrow> [(name, s)])"

definition bookAddedData :: "BookEventData \<Rightarrow> notificationData" where
  "bookAddedData d =
     \<lparr>nd_type = ''BOOK_ADDED'',
      nd_title = ''New Book: '' @ printed (ev_title d),
      nd_message = ''A new book \"'' @ printed (ev_title d) @ ''\" by '' @ printed (ev_author d) @
                   '' has been added to the '' @ printed (ev_category d) @ '' category.'',
      nd_relatedBookId = ev_bookId d,
      nd_relatedBookTitle = ev_title d,
      nd_relatedCategoryId = None,
      nd_relatedCategoryName = ev_category d,
      nd_metadata = Some (property ''author'' (ev_author d) @
                          property ''coverImageUrl'' (ev_coverImageUrl d)),
      nd_priority = Some ''normal''\<rparr>"

definition handleBookAdded ::
  "(string \<Rightarrow> (string \<Rightarrow> bool) option) \<Rightarrow> (nat \<Rightarrow> string) \<Rightarrow> bool \<Rightarrow> (nat \<Rightarrow> bool) \<Rightarrow>
   BookEventData \<Rightarrow> ServiceState \<Rightarrow> ServiceState"
where
  "handleBookAdded regexp stamp configured delivered d st =
     (let subscribers =
            getTargetedSubscribers regexp (categorySubscriptions st) (bookSubscriptions st)
              (printed (ev_category d)) (ev_bookId d)
      in if subscribers = [] then
           st\<lparr>eventLog := eventLog st @
                [\<lparr>eventType = ''BOOK_ADDED'', subscribersNotified = 0, emailsSent = None\<rparr>]\<rparr>
         else
           (let coll' = fst (createBatchNotifications stamp subscribers (bookAddedData d)
                               (notifications st));
                attempts = sendEmails configured delivered 0 subscribers
            in st\<lparr>notifications := coll',
                  outbox := outbox st @ attempts,
                  eventLog := eventLog st @
                    [\<lparr>eventType = ''BOOK_ADDED'', subscribersNotified = length subscribers,
                      emailsSent = Some (length (filter snd attempts))\<rparr>]\<rparr>))"

definition bookUpdatedData :: "BookEventData \<Rightarrow> notificationData" where
  "bookUpdatedData d =
     \<lparr>nd_type = ''BOOK_UPDATED'',
      nd_title = ''Book Updated: '' @ printed (ev_title d),
      nd_message = ''The book \"'' @ printed (ev_title d) @
                   ''\" that you're following has been updated.'',
      nd_relatedBookId = ev_bookId d,
      nd_relatedBookTitle = ev_title d,
      nd_relatedCategoryId = None,
      nd_relatedCategoryName = None,
      nd_metadata = None,
      nd_priority = Some ''low''\<rparr>"

definition handleBookUpdated ::
  "(string \<Rightarrow> (string \<Rightarrow> bool) option) \<Rightarrow> (nat \<Rightarrow> string) \<Rightarrow>
   BookEventData \<Rightarrow> ServiceState \<Rightarrow> ServiceState"
where
  "handleBookUpdated regexp stamp d st =
     (let subscribers =
            getTargetedSubscribers regexp (categorySubscriptions st) (bookSubscriptions st)
              (or_else (ev_category d) '''') (ev_bookId d);
          bookSubscribers =
            filter (\<lambda>s. subscriptionType s = Book \<or> subscriptionType s = Both) subscribers
      in if bookSubscribers = [] then st
         else
           st\<lparr>notifications :=
                 fst (createBatchNotifications stamp bookSubscribers (bookUpdatedData d)
                        (notifications st)),
              eventLog := eventLog st @
                [\<lparr>eventType = ''BOOK_UPDATED'', subscribersNotified = length bookSubscribers,
                  emailsSent = None\<rparr>]\<rparr>)"

subsection \<open>Facts about the batch write\<close>

lemma insertOrdered_fresh:
  "distinct (map notificationId docs) \<Longrightarrow>
   notificationId ` set docs \<inter> notificationId ` set coll = {} \<Longrightarrow>
   insertOrdered docs coll = (coll @ docs, True)"
proof (induction docs arbitrary: coll)
  case Nil
  then show ?case by simp
next
  case (Cons d ds)
  from Cons.prems have new: "notificationId d \<notin> notificationId ` set coll" by auto
  from Cons.prems have "distinct (map notificationId ds)"
    and "notificationId ` set ds \<inter> notificationId ` set (coll @ [d]) = {}"
    by auto
  from Cons.IH[OF this] new show ?case by simp
qed

lemma insertOrdered_prefix: "\<exists>k. fst (insertOrdered docs coll) = coll @ take k docs"
proof (induction docs arbitrary: coll)
  case Nil
  then show ?case by simp
next
  case (Cons d ds)
  show ?case
  proof (cases "notificationId d \<in> notificationId ` set coll")
    case True
    then have "fst (insertOrdered (d # ds) coll) = coll @ take 0 (d # ds)" by simp
    then show ?thesis by blast
  next
    case False
    from Cons.IH[of "coll @ [d]"] obtain k where
      "fst (insertOrdered ds (coll @ [d])) = (coll @ [d]) @ take k ds" by blast
    with False have "fst (insertOrdered (d # ds) coll) = coll @ take (Suc k) (d # ds)" by simp
    then show ?thesis by blast
  qed
qed

lemma createBatchNotifications_prefix:
  "\<exists>k. fst (createBatchNotifications stamp subscribers nd coll) =
        coll @ take k (batchDocuments stamp subscribers nd)"
proof (cases "list_all notification_valid (batchDocuments stamp subscribers nd)")
  case False
  then have "fst (createBatchNotifications stamp subscribers nd coll) =
      coll @ take 0 (batchDocuments stamp subscribers nd)"
    by (simp add: createBatchNotifications_def insertMany_def)
  then show ?thesis by blast
next
  case True
  from insertOrdered_prefix[of "batchDocuments stamp subscribers nd" coll] obtain k where
    k: "fst (insertOrdered (batchDocuments stamp subscribers nd) coll) =
        coll @ take k (batchDocuments stamp subscribers nd)" by blast
  from True have "fst (createBatchNotifications stamp subscribers nd coll) =
      fst (insertOrdered (batchDocuments stamp subscribers nd) coll)"
    by (cases "insertOrdered (batchDocuments stamp subscribers nd) coll")
       (simp add: createBatchNotifications_def insertMany_def split: bool.splits)
  with k show ?thesis by metis
qed

lemma batchDocuments_length [simp]:
  "length (batchDocuments stamp subscribers nd) = length subscribers"
  by (simp add: batchDocuments_def)

lemma batchDocuments_nth:
  "i < length subscribers \<Longrightarrow>
   batchDocuments stamp subscribers nd ! i = newNotification stamp nd i (subscribers ! i)"
  by (simp add: batchDocuments_def nth_enumerate_eq)

lemma batchDocuments_fields:
  "map n_userId (batchDocuments stamp subscribers nd) = map t_userId subscribers"
  "map n_userEmail (batchDocuments stamp subscribers nd) = map t_userEmail subscribers"
  "map n_type (batchDocuments stamp subscribers nd) = map (\<lambda>_. nd_type nd) subscribers"
  "map notificationId (batchDocuments stamp subscribers nd) =
     map (\<lambda>i. ''NOTIF-'' @ stamp i) [0..<length subscribers]"
  by (rule nth_equalityI; simp add: batchDocuments_nth newNotification_def)+

lemma batchDocuments_valid:
  assumes subs: "\<forall>s\<in>set subscribers. t_userId s \<noteq> [] \<and> t_userEmail s \<noteq> []"
    and nd: "nd_type nd \<in> set notification_types" "nd_title nd \<noteq> []" "nd_message nd \<noteq> []"
      "or_else (nd_priority nd) ''normal'' \<in> set priorities"
  shows "list_all notification_valid (batchDocuments stamp subscribers nd)"
proof -
  have "notification_valid n" if "n \<in> set (batchDocuments stamp subscribers nd)" for n
  proof -
    from that obtain i where i: "i < length subscribers"
      and n: "n = newNotification stamp nd i (subscribers ! i)"
      by (auto simp: in_set_conv_nth batchDocuments_nth)
    from i subs have "t_userId (subscribers ! i) \<noteq> []" "t_userEmail (subscribers ! i) \<noteq> []"
      by simp_all
    with nd show ?thesis unfolding n notification_valid_def newNotification_def by simp
  qed
  then show ?thesis by (simp add: list_all_iff)
qed

lemma createBatchNotifications_all:
  assumes "list_all notification_valid (batchDocuments stamp subscribers nd)"
    and "distinct (map stamp [0..<length subscribers])"
    and "\<forall>i<length subscribers. ''NOTIF-'' @ stamp i \<notin> notificationId ` set coll"
  shows "createBatchNotifications stamp subscribers nd coll =
     (coll @ batchDocuments stamp subscribers nd, batchDocuments stamp subscribers nd)"
proof -
  let ?docs = "batchDocuments stamp subscribers nd"
  have ids: "map notificationId ?docs = map (\<lambda>i. ''NOTIF-'' @ stamp i) [0..<length subscribers]"
    by (rule batchDocuments_fields)
  have "inj_on (\<lambda>i. ''NOTIF-'' @ stamp i) (set [0..<length subscribers])"
  proof (rule inj_onI)
    fix i j
    assume "i \<in> set [0..<length subscribers]" "j \<in> set [0..<length subscribers]"
      "''NOTIF-'' @ stamp i = ''NOTIF-'' @ stamp j"
    with assms(2) show "i = j" by (auto simp: distinct_map dest: inj_onD)
  qed
  then have d: "distinct (map notificationId ?docs)"
    unfolding ids by (simp add: distinct_map)
  have "set (map notificationId ?docs) \<inter> notificationId ` set coll = {}"
    unfolding ids using assms(3) by auto
  then have "notificationId ` set ?docs \<inter> notificationId ` set coll = {}" by simp
  from insertOrdered_fresh[OF d this] assms(1) show ?thesis
    by (simp add: createBatchNotifications_def insertMany_def)
qed

lemma sendEmails_recipients:
  "map fst (sendEmails configured delivered i subscribers) = map t_userEmail subscribers"
  by (induction subscribers arbitrary: i) simp_all

lemma sendEmails_nth:
  "k < length subscribers \<Longrightarrow>
   sendEmails configured delivered i subscribers ! k =
     (t_userEmail (subscribers ! k),
      sendNewBookNotificationEmail configured (delivered (i + k)) (t_userEmail (subscribers ! k)))"
proof (induction subscribers arbitrary: i k)
  case Nil
  then show ?case by simp
next
  case (Cons s ss)
  then show ?case by (cases k) simp_all
qed

subsection \<open>Resolved targets come from subscription rows\<close>

definition from_rows ::
  "CategorySubscription list \<Rightarrow> BookSubscription list \<Rightarrow> TargetedSubscriber \<Rightarrow> bool"
where
  "from_rows categories books e \<longleftrightarrow>
     (\<exists>c\<in>set categories. t_userId e = userId c \<and> t_userEmail e = userEmail c) \<or>
     (\<exists>b\<in>set books. t_userId e = userId b \<and> t_userEmail e = userEmail b)"

lemma fold_category_values:
  assumes "\<And>k v. map_of m k = Some v \<Longrightarrow> Q v" "\<And>s. s \<in> set subs \<Longrightarrow> Q (categoryEntry s)"
    and "map_of (fold setCategorySubscriber subs m) k = Some v"
  shows "Q v"
  using assms
proof (induction subs arbitrary: m)
  case Nil
  then show ?case by simp
next
  case (Cons s subs)
  have "Q v'" if "map_of (setCategorySubscriber s m) k' = Some v'" for k' v'
    using that Cons.prems(1)[of k' v'] Cons.prems(2)[of s]
    by (cases "k' = userId s") (simp_all add: setCategorySubscriber_def update_conv')
  from Cons.IH[OF this] Cons.prems(2,3) show ?case by simp
qed

lemma fold_book_values:
  assumes "\<And>k v. map_of m k = Some v \<Longrightarrow> Q v" "\<And>s. s \<in> set subs \<Longrightarrow> Q (bookEntry s)"
    and "\<And>s v. s \<in> set subs \<Longrightarrow> Q v \<Longrightarrow>
       Q (v\<lparr>subscriptionType := Both, t_bookId := Some (bookId s), t_bookTitle := Some (bookTitle s)\<rparr>)"
    and "map_of (fold setBookSubscriber subs m) k = Some v"
  shows "Q v"
  using assms
proof (induction subs arbitrary: m)
  case Nil
  then show ?case by simp
next
  case (Cons s subs)
  have "Q v'" if "map_of (setBookSubscriber s m) k' = Some v'" for k' v'
  proof (cases "k' = userId s")
    case False
    with that Cons.prems(1)[of k' v'] show ?thesis by (simp add: setBookSubscriber_other)
  next
    case True
    show ?thesis
    proof (cases "map_of m (userId s)")
      case None
      with that True Cons.prems(2)[of s] show ?thesis
        by (simp add: setBookSubscriber_def update_conv')
    next
      case (Some existing)
      from Cons.prems(1)[OF Some] Cons.prems(3)[of s existing]
      have "Q (existing\<lparr>subscriptionType := Both, t_bookId := Some (bookId s),
                        t_bookTitle := Some (bookTitle s)\<rparr>)" by simp
      with that True Some show ?thesis
        by (simp add: setBookSubscriber_def update_conv')
    qed
  qed
  from Cons.IH[OF this] Cons.prems(2,3,4) show ?case by simp
qed

lemma resolver_from_rows:
  assumes "e \<in> set (getTargetedSubscribers regexp categories books cname bid)"
  shows "from_rows categories books e"
proof (cases "regexp (''^'' @ cname @ ''$'')")
  case None
  with assms show ?thesis by (simp add: getTargetedSubscribers_throws)
next
  case (Some test)
  let ?cs = "filter (\<lambda>s. test (categoryName s) \<and> isActive s) categories"
  let ?m1 = "fold setCategorySubscriber ?cs []"
  from assms
  have e: "map_of (subscribersMap test categories books bid) (t_userId e) = Some e"
    using keyed_mem[OF keyed_subscribersMap[of test categories books bid], of e]
    by (simp only: getTargetedSubscribers_values[of regexp cname test, OF Some])
  have m1: "from_rows categories books v" if "map_of ?m1 k = Some v" for k v
  proof (rule fold_category_values[of "[]" "from_rows categories books" ?cs k v])
    show "map_of ?m1 k = Some v" by (rule that)
  qed (auto simp: from_rows_def categoryEntry_def)
  show ?thesis
  proof (cases bid)
    case None
    with e m1 show ?thesis by (simp add: subscribersMap_def)
  next
    case b: (Some b)
    show ?thesis
    proof (cases "b = []")
      case True
      with b e m1 show ?thesis by (simp add: subscribersMap_def)
    next
      case False
      let ?bs = "filter (\<lambda>s. bookId s = b \<and> isActive s) books"
      from b False e have "map_of (fold setBookSubscriber ?bs ?m1) (t_userId e) = Some e"
        by (simp add: subscribersMap_def)
      then show ?thesis
      proof (rule fold_book_values[of ?m1 "from_rows categories books" ?bs "t_userId e" e, rotated 3])
        show "from_rows categories books v" if "map_of ?m1 k = Some v" for k v
          by (rule m1[OF that])
      qed (auto simp: from_rows_def bookEntry_def)
    qed
  qed
qed

subsection \<open>A batch whose identifiers coincide\<close>

text \<open>
  An identifier supply that draws the same clock reading and the same random part
  for every document of a batch, and a mailer every delivery of which succeeds.
\<close>

definition repeated_stamp :: "nat \<Rightarrow> string" where
  "repeated_stamp i = ''1700000000000-9f8e7d6c''"

definition every_delivery :: "nat \<Rightarrow> bool" where
  "every_delivery i = True"

text \<open>
  C4, as the specification words it, fails when two identifiers of a batch coincide:
  the code draws each from the clock and 32 random bits and does not compare them.
  Users \<open>u1\<close> and \<open>u2\<close> subscribe to category Science and the book Cosmos is added
  to it, so that the resolver returns two targets; both documents of the batch get
  the same identifier. The ordered insert writes the first and stops at the second,
  the error is swallowed, and both emails are attempted: one row, not two.
\<close>

theorem same_identifier_loses_rows:
  "map t_userId (getTargetedSubscribers regexp_fragment
      [\<lparr>userId = ''u1'', userEmail = ''u1@lib.org'', userName = ''Ann'', isActive = True,
        subscribedAt = 5, categoryId = ''c1'', categoryName = ''Science''\<rparr>,
       \<lparr>userId = ''u2'', userEmail = ''u2@lib.org'', userName = ''Bob'', isActive = True,
        subscribedAt = 6, categoryId = ''c1'', categoryName = ''Science''\<rparr>]
      [] ''Science'' (Some ''b1'')) = [''u1'', ''u2''] \<and>
   map n_userId (notifications (handleBookAdded regexp_fragment repeated_stamp
      True every_delivery
      \<lparr>ev_bookId = Some ''b1'', ev_title = Some ''Cosmos'', ev_author = Some ''Sagan'',
        ev_category = Some ''Science'', ev_coverImageUrl = Some ''cosmos.png''\<rparr>
      \<lparr>categorySubscriptions =
         [\<lparr>userId = ''u1'', userEmail = ''u1@lib.org'', userName = ''Ann'', isActive = True,
           subscribedAt = 5, categoryId = ''c1'', categoryName = ''Science''\<rparr>,
          \<lparr>userId = ''u2'', userEmail = ''u2@lib.org'', userName = ''Bob'', isActive = True,
           subscribedAt = 6, categoryId = ''c1'', categoryName = ''Science''\<rparr>],
       bookSubscriptions = [], notifications = [], outbox = [], eventLog = []\<rparr>)) = [''u1''] \<and>
   outbox (handleBookAdded regexp_fragment repeated_stamp
      True every_delivery
      \<lparr>ev_bookId = Some ''b1'', ev_title = Some ''Cosmos'', ev_author = Some ''Sagan'',
        ev_category = Some ''Science'', ev_coverImageUrl = Some ''cosmos.png''\<rparr>
      \<lparr>categorySubscriptions =
         [\<lparr>userId = ''u1'', userEmail = ''u1@lib.org'', userName = ''Ann'', isActive = True,
           subscribedAt = 5, categoryId = ''c1'', categoryName = ''Science''\<rparr>,
          \<lparr>userId = ''u2'', userEmail = ''u2@lib.org'', userName = ''Bob'', isActive = True,
           subscribedAt = 6, categoryId = ''c1'', categoryName = ''Science''\<rparr>],
       bookSubscriptions = [], notifications = [], outbox = [], eventLog = []\<rparr>) =
     [(''u1@lib.org'', True), (''u2@lib.org'', True)]"
proof -
  let ?r1 = "\<lparr>userId = ''u1'', userEmail = ''u1@lib.org'', userName = ''Ann'', isActive = True,
           subscribedAt = 5, categoryId = ''c1'', categoryName = ''Science''\<rparr>"
  let ?r2 = "\<lparr>userId = ''u2'', userEmail = ''u2@lib.org'', userName = ''Bob'', isActive = True,
           subscribedAt = 6, categoryId = ''c1'', categoryName = ''Science''\<rparr>"
  let ?st = "\<lparr>categorySubscriptions = [?r1, ?r2],
       bookSubscriptions = [], notifications = [], outbox = [], eventLog = []\<rparr>"
  let ?d = "\<lparr>ev_bookId = Some ''b1'', ev_title = Some ''Cosmos'', ev_author = Some ''Sagan'',
        ev_category = Some ''Science'', ev_coverImageUrl = Some ''cosmos.png''\<rparr>"
  have "plain_name ''Science''"
    by (simp add: plain_name_def modelled_char_def is_quantifier_def)
  moreover have "plain_subject ''Science''"
    by (simp add: plain_subject_def)
  ultimately obtain test where test: "regexp_fragment (''^'' @ ''Science'' @ ''$'') = Some test"
    "test ''Science''"
    using plain_name_exact_match[of "''Science''" "''Science''"] by auto
  have targets: "getTargetedSubscribers regexp_fragment [?r1, ?r2] [] ''Science'' (Some ''b1'') =
      [categoryEntry ?r1, categoryEntry ?r2]"
    using test(2)
    by (simp add: getTargetedSubscribers_values[of regexp_fragment "''Science''" test, OF test(1)]
        subscribersMap_def setCategorySubscriber_def)
  have run: "handleBookAdded regexp_fragment repeated_stamp True every_delivery ?d ?st =
      ?st\<lparr>notifications := [newNotification repeated_stamp (bookAddedData ?d) 0 (categoryEntry ?r1)],
          outbox := [(''u1@lib.org'', True), (''u2@lib.org'', True)],
          eventLog := [\<lparr>eventType = ''BOOK_ADDED'', subscribersNotified = 2, emailsSent = Some 2\<rparr>]\<rparr>"
    by (simp add: handleBookAdded_def printed_def targets Let_def createBatchNotifications_def
        insertMany_def batchDocuments_def enumerate_eq_zip upt_rec newNotification_def
        notification_valid_def notification_types_def priorities_def or_else_def
        bookAddedData_def categoryEntry_def sendNewBookNotificationEmail_def
        repeated_stamp_def every_delivery_def)
  show ?thesis
    unfolding run targets by (simp add: newNotification_def categoryEntry_def)
qed

subsection \<open>Rows and email attempts of one event\<close>

text \<open>
  C4, amended. When the resolver returns \<open>N \<ge> 1\<close> targets for a BOOK_ADDED event,
  \<open>handleBookAdded\<close> makes one batch write and then \<open>N\<close> email attempts, one per
  target in order, whatever the outcome of each and of the write; the rows written
  are the first \<open>k \<le> N\<close> documents of the batch; and the collection afterwards is
  the same for every configuration of the mailer and every pattern of delivery
  failures. When moreover the subscription rows hold their required userId and
  userEmail and the identifiers drawn for the batch differ from each other and from
  those in the collection, exactly \<open>N\<close> rows are appended, the \<open>i\<close>-th carrying the
  \<open>i\<close>-th target's userId and userEmail and the type BOOK_ADDED.
\<close>

theorem book_added_fanout:
  assumes targets: "targets = getTargetedSubscribers regexp (categorySubscriptions st)
        (bookSubscriptions st) (printed (ev_category d)) (ev_bookId d)"
    and nonempty: "targets \<noteq> []"
  shows
    "(\<exists>k\<le>length targets.
        notifications (handleBookAdded regexp stamp configured delivered d st) =
          notifications st @ take k (batchDocuments stamp targets (bookAddedData d))) \<and>
     outbox (handleBookAdded regexp stamp configured delivered d st) =
       outbox st @ sendEmails configured delivered 0 targets \<and>
     map fst (sendEmails configured delivered 0 targets) = map t_userEmail targets \<and>
     (\<forall>configured' delivered'.
        notifications (handleBookAdded regexp stamp configured' delivered' d st) =
        notifications (handleBookAdded regexp stamp configured delivered d st)) \<and>
     ((\<forall>c\<in>set (categorySubscriptions st). userId c \<noteq> [] \<and> userEmail c \<noteq> []) \<and>
      (\<forall>b\<in>set (bookSubscriptions st). userId b \<noteq> [] \<and> userEmail b \<noteq> []) \<and>
      distinct (map stamp [0..<length targets]) \<and>
      (\<forall>i<length targets. ''NOTIF-'' @ stamp i \<notin> notificationId ` set (notifications st)) \<longrightarrow>
        notifications (handleBookAdded regexp stamp configured delivered d st) =
          notifications st @ batchDocuments stamp targets (bookAddedData d) \<and>
        length (batchDocuments stamp targets (bookAddedData d)) = length targets \<and>
        map n_userId (batchDocuments stamp targets (bookAddedData d)) = map t_userId targets \<and>
        map n_userEmail (batchDocuments stamp targets (bookAddedData d)) =
          map t_userEmail targets \<and>
        map n_type (batchDocuments stamp targets (bookAddedData d)) =
          map (\<lambda>s. ''BOOK_ADDED'') targets)"
proof -
  let ?docs = "batchDocuments stamp targets (bookAddedData d)"
  let ?coll = "fst (createBatchNotifications stamp targets (bookAddedData d) (notifications st))"
  have run: "handleBookAdded regexp stamp c' d' d st =
      st\<lparr>notifications := ?coll,
         outbox := outbox st @ sendEmails c' d' 0 targets,
         eventLog := eventLog st @
           [\<lparr>eventType = ''BOOK_ADDED'', subscribersNotified = length targets,
             emailsSent = Some (length (filter snd (sendEmails c' d' 0 targets)))\<rparr>]\<rparr>"
    for c' d'
    using nonempty unfolding handleBookAdded_def targets[symmetric] Let_def by simp
  from createBatchNotifications_prefix[of stamp targets "bookAddedData d" "notifications st"]
  obtain k where k: "?coll = notifications st @ take k ?docs" by blast
  have "take k ?docs = take (min k (length targets)) ?docs"
    by (cases "k \<le> length targets") (simp_all add: min_def)
  with k have "min k (length targets) \<le> length targets \<and>
      ?coll = notifications st @ take (min k (length targets)) ?docs" by simp
  then have 1: "\<exists>k\<le>length targets.
        notifications (handleBookAdded regexp stamp configured delivered d st) =
          notifications st @ take k ?docs"
    unfolding run by (intro exI[of _ "min k (length targets)"]) simp
  have 2: "outbox (handleBookAdded regexp stamp configured delivered d st) =
       outbox st @ sendEmails configured delivered 0 targets"
    by (simp add: run)
  have 3: "map fst (sendEmails configured delivered 0 targets) = map t_userEmail targets"
    by (rule sendEmails_recipients)
  have 4: "\<forall>configured' delivered'.
        notifications (handleBookAdded regexp stamp configured' delivered' d st) =
        notifications (handleBookAdded regexp stamp configured delivered d st)"
    by (simp add: run)
  have 5: "(\<forall>c\<in>set (categorySubscriptions st). userId c \<noteq> [] \<and> userEmail c \<noteq> []) \<and>
      (\<forall>b\<in>set (bookSubscriptions st). userId b \<noteq> [] \<and> userEmail b \<noteq> []) \<and>
      distinct (map stamp [0..<length targets]) \<and>
      (\<forall>i<length targets. ''NOTIF-'' @ stamp i \<notin> notificationId ` set (notifications st)) \<longrightarrow>
        notifications (handleBookAdded regexp stamp configured delivered d st) =
          notifications st @ ?docs \<and>
        length ?docs = length targets \<and>
        map n_userId ?docs = map t_userId targets \<and>
        map n_userEmail ?docs = map t_userEmail targets \<and>
        map n_type ?docs = map (\<lambda>s. ''BOOK_ADDED'') targets"
  proof
    assume h: "(\<forall>c\<in>set (categorySubscriptions st). userId c \<noteq> [] \<and> userEmail c \<noteq> []) \<and>
      (\<forall>b\<in>set (bookSubscriptions st). userId b \<noteq> [] \<and> userEmail b \<noteq> []) \<and>
      distinct (map stamp [0..<length targets]) \<and>
      (\<forall>i<length targets. ''NOTIF-'' @ stamp i \<notin> notificationId ` set (notifications st))"
    then have rows_c: "\<forall>c\<in>set (categorySubscriptions st). userId c \<noteq> [] \<and> userEmail c \<noteq> []"
      and rows_b: "\<forall>b\<in>set (bookSubscriptions st). userId b \<noteq> [] \<and> userEmail b \<noteq> []"
      and fresh: "distinct (map stamp [0..<length targets])"
        "\<forall>i<length targets. ''NOTIF-'' @ stamp i \<notin> notificationId ` set (notifications st)"
      by blast+
    have wf: "\<forall>s\<in>set targets. t_userId s \<noteq> [] \<and> t_userEmail s \<noteq> []"
    proof
      fix s assume "s \<in> set targets"
      then have "from_rows (categorySubscriptions st) (bookSubscriptions st) s"
        unfolding targets by (rule resolver_from_rows)
      with rows_c rows_b show "t_userId s \<noteq> [] \<and> t_userEmail s \<noteq> []"
        by (auto simp: from_rows_def)
    qed
    have valid: "list_all notification_valid ?docs"
      by (rule batchDocuments_valid[OF wf])
         (simp_all add: bookAddedData_def notification_types_def priorities_def or_else_def)
    have batch: "createBatchNotifications stamp targets (bookAddedData d) (notifications st) =
        (notifications st @ ?docs, ?docs)"
      by (rule createBatchNotifications_all[OF valid fresh])
    have ty: "map n_type ?docs = map (\<lambda>s. ''BOOK_ADDED'') targets"
      by (simp add: batchDocuments_fields bookAddedData_def)
    show "notifications (handleBookAdded regexp stamp configured delivered d st) =
          notifications st @ ?docs \<and>
        length ?docs = length targets \<and>
        map n_userId ?docs = map t_userId targets \<and>
        map n_userEmail ?docs = map t_userEmail targets \<and>
        map n_type ?docs = map (\<lambda>s. ''BOOK_ADDED'') targets"
      by (simp add: run batch batchDocuments_fields(1,2) ty)
  qed
  from 1 2 3 4 5 show ?thesis by (intro conjI)
qed

text \<open>
  The theorem where users \<open>u1\<close> and \<open>u2\<close> subscribe to category Science, the
  collection holds an earlier notification of \<open>u9\<close>, the book Cosmos is added to
  Science with two different identifiers drawn, and the delivery to \<open>u1\<close> fails
  while the one to \<open>u2\<close> succeeds: both rows are written after the earlier one, and
  both attempts are on record.
\<close>

theorem book_added_fanout_witness:
  "notifications (handleBookAdded regexp_fragment
      (\<lambda>i. if i = 0 then ''1700000000000-9f8e7d6c'' else ''1700000000000-0a1b2c3d'')
      True (\<lambda>i. i = 1)
      \<lparr>ev_bookId = Some ''b1'', ev_title = Some ''Cosmos'', ev_author = Some ''Sagan'',
        ev_category = Some ''Science'', ev_coverImageUrl = Some ''cosmos.png''\<rparr>
      \<lparr>categorySubscriptions =
         [\<lparr>userId = ''u1'', userEmail = ''u1@lib.org'', userName = ''Ann'', isActive = True,
           subscribedAt = 5, categoryId = ''c1'', categoryName = ''Science''\<rparr>,
          \<lparr>userId = ''u2'', userEmail = ''u2@lib.org'', userName = ''Bob'', isActive = True,
           subscribedAt = 6, categoryId = ''c1'', categoryName = ''Science''\<rparr>],
       bookSubscriptions = [],
       notifications =
         [\<lparr>notificationId = ''NOTIF-1690000000000-5e6f7a8b'', n_userId = ''u9'',
           n_userEmail = ''u9@lib.org'', n_type = ''SYSTEM'', n_title = ''Welcome'',
           n_message = ''Welcome to the library.'', relatedBookId = None,
           relatedBookTitle = None, relatedCategoryId = None, relatedCategoryName = None,
           metadata = [], isRead = False, readAt = None, priority = ''normal''\<rparr>],
       outbox = [], eventLog = []\<rparr>) =
     [\<lparr>notificationId = ''NOTIF-1690000000000-5e6f7a8b'', n_userId = ''u9'',
       n_userEmail = ''u9@lib.org'', n_type = ''SYSTEM'', n_title = ''Welcome'',
       n_message = ''Welcome to the library.'', relatedBookId = None,
       relatedBookTitle = None, relatedCategoryId = None, relatedCategoryName = None,
       metadata = [], isRead = False, readAt = None, priority = ''normal''\<rparr>,
      \<lparr>notificationId = ''NOTIF-1700000000000-9f8e7d6c'', n_userId = ''u1'',
       n_userEmail = ''u1@lib.org'', n_type = ''BOOK_ADDED'', n_title = ''New Book: Cosmos'',
       n_message = ''A new book \"Cosmos\" by Sagan has been added to the Science category.'',
       relatedBookId = Some ''b1'', relatedBookTitle = Some ''Cosmos'',
       relatedCategoryId = None, relatedCategoryName = Some ''Science'',
       metadata = [(''author'', ''Sagan''), (''coverImageUrl'', ''cosmos.png'')],
       isRead = False, readAt = None, priority = ''normal''\<rparr>,
      \<lparr>notificationId = ''NOTIF-1700000000000-0a1b2c3d'', n_userId = ''u2'',
       n_userEmail = ''u2@lib.org'', n_type = ''BOOK_ADDED'', n_title = ''New Book: Cosmos'',
       n_message = ''A new book \"Cosmos\" by Sagan has been added to the Science category.'',
       relatedBookId = Some ''b1'', relatedBookTitle = Some ''Cosmos'',
       relatedCategoryId = None, relatedCategoryName = Some ''Science'',
       metadata = [(''author'', ''Sagan''), (''coverImageUrl'', ''cosmos.png'')],
       isRead = False, readAt = None, priority = ''normal''\<rparr>] \<and>
   outbox (handleBookAdded regexp_fragment
      (\<lambda>i. if i = 0 then ''1700000000000-9f8e7d6c'' else ''1700000000000-0a1b2c3d'')
      True (\<lambda>i. i = 1)
      \<lparr>ev_bookId = Some ''b1'', ev_title = Some ''Cosmos'', ev_author = Some ''Sagan'',
        ev_category = Some ''Science'', ev_coverImageUrl = Some ''cosmos.png''\<rparr>
      \<lparr>categorySubscriptions =
         [\<lparr>userId = ''u1'', userEmail = ''u1@lib.org'', userName = ''Ann'', isActive = True,
           subscribedAt = 5, categoryId = ''c1'', categoryName = ''Science''\<rparr>,
          \<lparr>userId = ''u2'', userEmail = ''u2@lib.org'', userName = ''Bob'', isActive = True,
           subscribedAt = 6, categoryId = ''c1'', categoryName = ''Science''\<rparr>],
       bookSubscriptions = [],
       notifications =
         [\<lparr>notificationId = ''NOTIF-1690000000000-5e6f7a8b'', n_userId = ''u9'',
           n_userEmail = ''u9@lib.org'', n_type = ''SYSTEM'', n_title = ''Welcome'',
           n_message = ''Welcome to the library.'', relatedBookId = None,
           relatedBookTitle = None, relatedCategoryId = None, relatedCategoryName = None,
           metadata = [], isRead = False, readAt = None, priority = ''normal''\<rparr>],
       outbox = [], eventLog = []\<rparr>) =
     [(''u1@lib.org'', False), (''u2@lib.org'', True)]"
proof -
  let ?r1 = "\<lparr>userId = ''u1'', userEmail = ''u1@lib.org'', userName = ''Ann'', isActive = True,
           subscribedAt = 5, categoryId = ''c1'', categoryName = ''Science''\<rparr>"
  let ?r2 = "\<lparr>userId = ''u2'', userEmail = ''u2@lib.org'', userName = ''Bob'', isActive = True,
           subscribedAt = 6, categoryId = ''c1'', categoryName = ''Science''\<rparr>"
  let ?old = "\<lparr>notificationId = ''NOTIF-1690000000000-5e6f7a8b'', n_userId = ''u9'',
           n_userEmail = ''u9@lib.org'', n_type = ''SYSTEM'', n_title = ''Welcome'',
           n_message = ''Welcome to the library.'', relatedBookId = None,
           relatedBookTitle = None, relatedCategoryId = None, relatedCategoryName = None,
           metadata = [], isRead = False, readAt = None, priority = ''normal''\<rparr>"
  let ?st = "\<lparr>categorySubscriptions = [?r1, ?r2],
       bookSubscriptions = [], notifications = [?old], outbox = [], eventLog = []\<rparr>"
  let ?d = "\<lparr>ev_bookId = Some ''b1'', ev_title = Some ''Cosmos'', ev_author = Some ''Sagan'',
        ev_category = Some ''Science'', ev_coverImageUrl = Some ''cosmos.png''\<rparr>"
  let ?stamp = "\<lambda>i::nat. if i = 0 then ''1700000000000-9f8e7d6c'' else ''1700000000000-0a1b2c3d''"
  let ?ts = "[categoryEntry ?r1, categoryEntry ?r2]"
  let ?H = "handleBookAdded regexp_fragment ?stamp True (\<lambda>i. i = 1) ?d ?st"
  have "plain_name ''Science''"
    by (simp add: plain_name_def modelled_char_def is_quantifier_def)
  moreover have "plain_subject ''Science''"
    by (simp add: plain_subject_def)
  ultimately obtain test where test: "regexp_fragment (''^'' @ ''Science'' @ ''$'') = Some test"
    "test ''Science''"
    using plain_name_exact_match[of "''Science''" "''Science''"] by auto
  have targets: "?ts = getTargetedSubscribers regexp_fragment
      (categorySubscriptions ?st) (bookSubscriptions ?st) (printed (ev_category ?d)) (ev_bookId ?d)"
    using test(2)
    by (simp add: getTargetedSubscribers_values[of regexp_fragment "''Science''" test, OF test(1)]
        subscribersMap_def printed_def setCategorySubscriber_def)
  have nonempty: "?ts \<noteq> []" by simp
  note T = book_added_fanout[OF targets nonempty, of ?stamp True "\<lambda>i. i = 1"]
  have pre: "(\<forall>c\<in>set (categorySubscriptions ?st). userId c \<noteq> [] \<and> userEmail c \<noteq> []) \<and>
      (\<forall>b\<in>set (bookSubscriptions ?st). userId b \<noteq> [] \<and> userEmail b \<noteq> []) \<and>
      distinct (map ?stamp [0..<length ?ts]) \<and>
      (\<forall>i<length ?ts. ''NOTIF-'' @ ?stamp i \<notin> notificationId ` set (notifications ?st))"
    by (simp add: upt_rec)
  from T[THEN conjunct2, THEN conjunct2, THEN conjunct2, THEN conjunct2, THEN mp, OF pre]
  have rows: "notifications ?H = notifications ?st @ batchDocuments ?stamp ?ts (bookAddedData ?d)"
    by blast
  have 1: "notifications ?H =
      [?old,
       \<lparr>notificationId = ''NOTIF-1700000000000-9f8e7d6c'', n_userId = ''u1'',
        n_userEmail = ''u1@lib.org'', n_type = ''BOOK_ADDED'', n_title = ''New Book: Cosmos'',
        n_message = ''A new book \"Cosmos\" by Sagan has been added to the Science category.'',
        relatedBookId = Some ''b1'', relatedBookTitle = Some ''Cosmos'',
        relatedCategoryId = None, relatedCategoryName = Some ''Science'',
        metadata = [(''author'', ''Sagan''), (''coverImageUrl'', ''cosmos.png'')],
        isRead = False, readAt = None, priority = ''normal''\<rparr>,
       \<lparr>notificationId = ''NOTIF-1700000000000-0a1b2c3d'', n_userId = ''u2'',
        n_userEmail = ''u2@lib.org'', n_type = ''BOOK_ADDED'', n_title = ''New Book: Cosmos'',
        n_message = ''A new book \"Cosmos\" by Sagan has been added to the Science category.'',
        relatedBookId = Some ''b1'', relatedBookTitle = Some ''Cosmos'',
        relatedCategoryId = None, relatedCategoryName = Some ''Science'',
        metadata = [(''author'', ''Sagan''), (''coverImageUrl'', ''cosmos.png'')],
        isRead = False, readAt = None, priority = ''normal''\<rparr>]"
    unfolding rows
    by (simp add: batchDocuments_def enumerate_eq_zip upt_rec newNotification_def
        bookAddedData_def printed_def or_null_def or_else_def property_def categoryEntry_def)
  from T[THEN conjunct2, THEN conjunct1]
  have "outbox ?H = outbox ?st @ sendEmails True (\<lambda>i. i = 1) 0 ?ts" .
  then have 2: "outbox ?H = [(''u1@lib.org'', False), (''u2@lib.org'', True)]"
    by (simp add: categoryEntry_def sendNewBookNotificationEmail_def)
  from 1 2 show ?thesis by (rule conjI)
qed

text \<open>
  C10. Whatever \<open>handleBookUpdated\<close> adds to the notifications collection for a
  BOOK_UPDATED event is a BOOK_UPDATED row for a resolved target of type \<open>Book\<close> or
  \<open>Both\<close>, that is, for a user holding an active subscription to the event's book.
  A user without such a subscription, in particular one whose only active
  subscription is to the book's category, gets no row; and when the book has no
  active subscriber at all, no row is created.
\<close>

theorem book_updated_only_book_followers:
  "\<exists>batch.
     notifications (handleBookUpdated regexp stamp d st) = notifications st @ batch \<and>
     (\<forall>n\<in>set batch.
        n_type n = ''BOOK_UPDATED'' \<and>
        (\<exists>s\<in>set (getTargetedSubscribers regexp (categorySubscriptions st) (bookSubscriptions st)
                     (or_else (ev_category d) '''') (ev_bookId d)).
           t_userId s = n_userId n \<and> (subscriptionType s = Book \<or> subscriptionType s = Both)) \<and>
        (\<exists>b\<in>set (bookSubscriptions st).
           userId b = n_userId n \<and> isActive b \<and> Some (bookId b) = ev_bookId d)) \<and>
     (\<forall>u. (\<forall>b\<in>set (bookSubscriptions st).
              \<not> (userId b = u \<and> isActive b \<and> Some (bookId b) = ev_bookId d)) \<longrightarrow>
          u \<notin> n_userId ` set batch) \<and>
     ((\<forall>b\<in>set (bookSubscriptions st). \<not> (isActive b \<and> Some (bookId b) = ev_bookId d)) \<longrightarrow>
        batch = [])"
proof -
  let ?targets = "getTargetedSubscribers regexp (categorySubscriptions st) (bookSubscriptions st)
      (or_else (ev_category d) '''') (ev_bookId d)"
  let ?subs = "filter (\<lambda>s. subscriptionType s = Book \<or> subscriptionType s = Both) ?targets"
  let ?docs = "batchDocuments stamp ?subs (bookUpdatedData d)"
  have follower: "\<exists>b\<in>set (bookSubscriptions st).
      userId b = t_userId s \<and> isActive b \<and> Some (bookId b) = ev_bookId d"
    if "s \<in> set ?subs" for s
  proof -
    from that have "s \<in> set ?targets" "subscriptionType s \<noteq> Category" by auto
    from resolver_book_level[OF this] show ?thesis by blast
  qed
  obtain batch where batch: "notifications (handleBookUpdated regexp stamp d st) =
      notifications st @ batch" and sub: "set batch \<subseteq> set ?docs"
  proof (cases "?subs = []")
    case True
    then have "notifications (handleBookUpdated regexp stamp d st) = notifications st @ []"
      by (simp add: handleBookUpdated_def Let_def)
    then show ?thesis using that[of "[]"] by simp
  next
    case False
    from createBatchNotifications_prefix[of stamp ?subs "bookUpdatedData d" "notifications st"]
    obtain k where "fst (createBatchNotifications stamp ?subs (bookUpdatedData d) (notifications st))
        = notifications st @ take k ?docs" by blast
    with False have "notifications (handleBookUpdated regexp stamp d st) =
        notifications st @ take k ?docs"
      by (simp add: handleBookUpdated_def Let_def)
    then show ?thesis using that[of "take k ?docs"] set_take_subset[of k ?docs] by simp
  qed
  have row: "n_type n = ''BOOK_UPDATED'' \<and>
      (\<exists>s\<in>set ?targets. t_userId s = n_userId n \<and>
          (subscriptionType s = Book \<or> subscriptionType s = Both)) \<and>
      (\<exists>b\<in>set (bookSubscriptions st).
          userId b = n_userId n \<and> isActive b \<and> Some (bookId b) = ev_bookId d)"
    if "n \<in> set batch" for n
  proof -
    from that sub have "n \<in> set ?docs" by blast
    then obtain i where i: "i < length ?subs"
      and n: "n = newNotification stamp (bookUpdatedData d) i (?subs ! i)"
      by (auto simp: in_set_conv_nth batchDocuments_nth)
    from i have mem: "?subs ! i \<in> set ?subs" by (rule nth_mem)
    then have t: "?subs ! i \<in> set ?targets"
      "subscriptionType (?subs ! i) = Book \<or> subscriptionType (?subs ! i) = Both"
      by auto
    have id: "n_userId n = t_userId (?subs ! i)" "n_type n = ''BOOK_UPDATED''"
      unfolding n by (simp_all add: newNotification_def bookUpdatedData_def)
    from follower[OF mem] t id show ?thesis by auto
  qed
  have none: "u \<notin> n_userId ` set batch"
    if "\<forall>b\<in>set (bookSubscriptions st).
          \<not> (userId b = u \<and> isActive b \<and> Some (bookId b) = ev_bookId d)" for u
    using that row by blast
  have empty: "batch = []"
    if "\<forall>b\<in>set (bookSubscriptions st). \<not> (isActive b \<and> Some (bookId b) = ev_bookId d)"
  proof (cases batch)
    case Nil
    then show ?thesis .
  next
    case (Cons n ns)
    then have "n \<in> set batch" by simp
    from row[OF this] that show ?thesis by blast
  qed
  from batch row none empty show ?thesis by blast
qed

text \<open>
  The theorem where \<open>u1\<close> subscribes to category Science only and \<open>u2\<close> follows the
  book \<open>b1\<close> of that category: the update of \<open>b1\<close> creates no notification for \<open>u1\<close>.
\<close>

theorem book_updated_only_book_followers_witness:
  "''u1'' \<notin> n_userId ` set (notifications (handleBookUpdated regexp_fragment
      (\<lambda>i. ''1700000000000-9f8e7d6c'')
      \<lparr>ev_bookId = Some ''b1'', ev_title = Some ''Cosmos'', ev_author = Some ''Sagan'',
        ev_category = Some ''Science'', ev_coverImageUrl = None\<rparr>
      \<lparr>categorySubscriptions =
         [\<lparr>userId = ''u1'', userEmail = ''u1@lib.org'', userName = ''Ann'', isActive = True,
           subscribedAt = 5, categoryId = ''c1'', categoryName = ''Science''\<rparr>],
       bookSubscriptions =
         [\<lparr>userId = ''u2'', userEmail = ''u2@lib.org'', userName = ''Bob'', isActive = True,
           subscribedAt = 6, bookId = ''b1'', bookTitle = ''Cosmos'', bookCategory = ''Science''\<rparr>],
       notifications = [], outbox = [], eventLog = []\<rparr>))"
proof -
  let ?st = "\<lparr>categorySubscriptions =
         [\<lparr>userId = ''u1'', userEmail = ''u1@lib.org'', userName = ''Ann'', isActive = True,
           subscribedAt = 5, categoryId = ''c1'', categoryName = ''Science''\<rparr>],
       bookSubscriptions =
         [\<lparr>userId = ''u2'', userEmail = ''u2@lib.org'', userName = ''Bob'', isActive = True,
           subscribedAt = 6, bookId = ''b1'', bookTitle = ''Cosmos'', bookCategory = ''Science''\<rparr>],
       notifications = [], outbox = [], eventLog = []\<rparr>"
  let ?d = "\<lparr>ev_bookId = Some ''b1'', ev_title = Some ''Cosmos'', ev_author = Some ''Sagan'',
        ev_category = Some ''Science'', ev_coverImageUrl = None\<rparr>"
  let ?stamp = "\<lambda>i::nat. ''1700000000000-9f8e7d6c''"
  from book_updated_only_book_followers[of regexp_fragment ?stamp ?d ?st]
  obtain batch where
    batch: "notifications (handleBookUpdated regexp_fragment ?stamp ?d ?st) = notifications ?st @ batch"
    and none: "\<forall>u. (\<forall>b\<in>set (bookSubscriptions ?st).
              \<not> (userId b = u \<and> isActive b \<and> Some (bookId b) = ev_bookId ?d)) \<longrightarrow>
          u \<notin> n_userId ` set batch"
    by blast
  have "\<forall>b\<in>set (bookSubscriptions ?st).
      \<not> (userId b = ''u1'' \<and> isActive b \<and> Some (bookId b) = ev_bookId ?d)"
    by simp
  with none have "''u1'' \<notin> n_userId ` set batch" by blast
  with batch show ?thesis by simp
qed

section \<open>Availability projector\<close>

text \<open>
  The book service's subscriber (book-service/services/eventSubscriber.js) and the
  fields of a catalog document it reads and writes (models/Book.js). The schema
  declares \<^verbatim>\<open>totalCopies\<close> and \<^verbatim>\<open>availableCopies\<close> as \<^verbatim>\<open>Number\<close> with minimum 0 and
  nothing else: a count need not be an integer.
\<close>

subsection \<open>Numbers\<close>

text \<open>
  A JavaScript number is an IEEE double; a count is modelled as the real number the
  double stands for, and the comparisons of the source are the comparisons of those
  reals. \<^verbatim>\<open>+\<close> and \<^verbatim>\<open>-\<close> return the exact sum or difference whenever that is a double
  again. This is modelled on the doubles that \<open>representable\<close> describes: the
  integers of magnitude up to \<open>2 ^ 53\<close> and the multiples of \<open>1 / 1024\<close> of magnitude
  up to \<open>2 ^ 43\<close>. Where an operand or the exact result lies outside them the
  result, which is the rounding of IEEE arithmetic, is left unspecified.
\<close>

definition representable :: "real \<Rightarrow> bool" where
  "representable x \<longleftrightarrow>
     (x \<in> \<int> \<and> \<bar>x\<bar> \<le> 2 ^ 53) \<or> (x * 1024 \<in> \<int> \<and> \<bar>x\<bar> \<le> 2 ^ 43)"

definition js_add :: "real \<Rightarrow> real \<Rightarrow> real" where
  "js_add x y =
     (if representable x \<and> representable y \<and> representable (x + y) then x + y else undefined)"

definition js_sub :: "real \<Rightarrow> real \<Rightarrow> real" where
  "js_sub x y =
     (if representable x \<and> representable y \<and> representable (x - y) then x - y else undefined)"

subsection \<open>Documents and handlers\<close>

record Book =
  bk_bookId :: string
  bk_title :: string
  totalCopies :: real
  availableCopies :: real
  status :: string

text \<open>
  \<^verbatim>\<open>book.save()\<close> on a loaded document validates the paths that were modified. Of the
  two handlers' writes only a negative \<^verbatim>\<open>availableCopies\<close> can fail (the minimum of
  the schema); the save then throws, the handler's \<^verbatim>\<open>catch\<close> logs, and the collection
  keeps the document as it was.
\<close>

definition saveBook :: "nat \<Rightarrow> Book \<Rightarrow> Book list \<Rightarrow> Book list" where
  "saveBook i book coll =
     (if availableCopies book \<noteq> availableCopies (coll ! i) \<and> availableCopies book < 0 then coll
      else coll[i := book])"

text \<open>The changes the handlers make to the loaded document before saving it.\<close>

definition decreaseCopies :: "Book \<Rightarrow> Book" where
  "decreaseCopies book =
     (let book' = book\<lparr>availableCopies := js_sub (availableCopies book) 1\<rparr>
      in if availableCopies book' = 0 then book'\<lparr>status := ''unavailable''\<rparr> else book')"

definition increaseCopies :: "Book \<Rightarrow> Book" where
  "increaseCopies book =
     (let book' = (if availableCopies book < totalCopies book
                   then book\<lparr>availableCopies := js_add (availableCopies book) 1\<rparr> else book)
      in if availableCopies book' > 0 then book'\<lparr>status := ''available''\<rparr> else book')"

text \<open>
  The handlers. The message is \<open>None\<close> when \<^verbatim>\<open>JSON.parse\<close> throws, and otherwise
  the \<^verbatim>\<open>bookId\<close> of the payload.
\<close>

definition handleBookBorrowed :: "string option \<Rightarrow> Book list \<Rightarrow> Book list" where
  "handleBookBorrowed message coll =
     (case message of
        None \<Rightarrow> coll
      | Some bid \<Rightarrow>
          (case findOne (\<lambda>b. bk_bookId b = bid) coll of
             None \<Rightarrow> coll
           | Some i \<Rightarrow>
               if availableCopies (coll ! i) \<le> 0 then coll
               else saveBook i (decreaseCopies (coll ! i)) coll))"

definition handleBookReturned :: "string option \<Rightarrow> Book list \<Rightarrow> Book list" where
  "handleBookReturned message coll =
     (case message of
        None \<Rightarrow> coll
      | Some bid \<Rightarrow>
          (case findOne (\<lambda>b. bk_bookId b = bid) coll of
             None \<Rightarrow> coll
           | Some i \<Rightarrow> saveBook i (increaseCopies (coll ! i)) coll))"

text \<open>
  Events handled one at a time, each read-modify-write finished before the next
  begins.
\<close>

datatype availability_event = BookBorrowed "string option" | BookReturned "string option"

fun project :: "availability_event \<Rightarrow> Book list \<Rightarrow> Book list" where
  "project (BookBorrowed message) coll = handleBookBorrowed message coll"
| "project (BookReturned message) coll = handleBookReturned message coll"

definition project_all :: "availability_event list \<Rightarrow> Book list \<Rightarrow> Book list" where
  "project_all events coll = fold project events coll"

definition within_bounds :: "Book \<Rightarrow> bool" where
  "within_bounds book \<longleftrightarrow> 0 \<le> availableCopies book \<and> availableCopies book \<le> totalCopies book"

text \<open>
  Counts as the data model of the specification has them: integers, here with a
  total that IEEE arithmetic counts up to exactly.
\<close>

definition integer_counts :: "Book \<Rightarrow> bool" where
  "integer_counts book \<longleftrightarrow>
     availableCopies book \<in> \<int> \<and> totalCopies book \<in> \<int> \<and> totalCopies book \<le> 2 ^ 53"

subsection \<open>The catalog's own update of the total\<close>

text \<open>
  \<^verbatim>\<open>updateBook\<close> of the book controller, for a request body that holds only the number
  \<^verbatim>\<open>totalCopies\<close>, on the document found: the HTTP status and the document as stored
  afterwards. The new total is assigned to the document first, so the comparison
  that follows reads the total just assigned. \<^verbatim>\<open>book.save()\<close> refuses a total below
  the minimum of the schema; the answer is then 500 and the stored document stays as
  it was.
\<close>

definition updateTotalCopies :: "real \<Rightarrow> Book \<Rightarrow> nat \<times> Book" where
  "updateTotalCopies n book =
     (let book1 = book\<lparr>totalCopies := n\<rparr>;
          book2 = (if n \<noteq> 0 \<and> n > totalCopies book1
                   then book1\<lparr>availableCopies :=
                                 js_add (availableCopies book1) (js_sub n (totalCopies book1))\<rparr>
                   else book1);
          book3 = book2\<lparr>status := (if availableCopies book2 > 0 then ''available'' else ''unavailable'')\<rparr>
      in if (totalCopies book3 \<noteq> totalCopies book \<and> totalCopies book3 < 0) \<or>
            (availableCopies book3 \<noteq> availableCopies book \<and> availableCopies book3 < 0)
         then (500, book) else (200, book3))"

subsection \<open>Arithmetic on integer counts\<close>

lemma Ints_less_add1:
  fixes x y :: real
  assumes "x \<in> \<int>" "y \<in> \<int>" "x < y"
  shows "x + 1 \<le> y"
proof -
  from assms(1) obtain m where m: "x = of_int m" by (rule Ints_cases)
  from assms(2) obtain n where n: "y = of_int n" by (rule Ints_cases)
  from assms(3) have "m < n" unfolding m n by simp
  then have "m + 1 \<le> n" by simp
  then have "(of_int (m + 1) :: real) \<le> of_int n" by (simp only: of_int_le_iff)
  then show ?thesis unfolding m n by simp
qed

lemma representable_integer: "x \<in> \<int> \<Longrightarrow> \<bar>x\<bar> \<le> 2 ^ 53 \<Longrightarrow> representable x"
  by (simp add: representable_def)

lemma js_add_one:
  assumes "x \<in> \<int>" "0 \<le> x" "x + 1 \<le> 2 ^ 53"
  shows "js_add x 1 = x + 1"
proof -
  from assms have "representable x" by (intro representable_integer) simp_all
  moreover have "representable 1" by (simp add: representable_def)
  moreover from assms have "representable (x + 1)" by (intro representable_integer) simp_all
  ultimately show ?thesis by (simp add: js_add_def)
qed

lemma js_sub_one:
  assumes "x \<in> \<int>" "1 \<le> x" "x \<le> 2 ^ 53"
  shows "js_sub x 1 = x - 1"
proof -
  from assms have "representable x" by (intro representable_integer) simp_all
  moreover have "representable 1" by (simp add: representable_def)
  moreover from assms have "representable (x - 1)" by (intro representable_integer) simp_all
  ultimately show ?thesis by (simp add: js_sub_def)
qed

lemma positive_integer_ge_one:
  fixes x :: real
  assumes "x \<in> \<int>" "0 < x"
  shows "1 \<le> x"
  using Ints_less_add1[of 0 x] assms by simp

subsection \<open>One event\<close>

lemma decreaseCopies_fields:
  "availableCopies (decreaseCopies b) = js_sub (availableCopies b) 1"
  "totalCopies (decreaseCopies b) = totalCopies b"
  "bk_bookId (decreaseCopies b) = bk_bookId b"
  "status (decreaseCopies b) = (if js_sub (availableCopies b) 1 = 0 then ''unavailable'' else status b)"
  by (simp_all add: decreaseCopies_def Let_def)

lemma increaseCopies_fields:
  "availableCopies (increaseCopies b) =
     (if availableCopies b < totalCopies b then js_add (availableCopies b) 1 else availableCopies b)"
  "totalCopies (increaseCopies b) = totalCopies b"
  "bk_bookId (increaseCopies b) = bk_bookId b"
  "status (increaseCopies b) =
     (if 0 < (if availableCopies b < totalCopies b then js_add (availableCopies b) 1 else availableCopies b)
      then ''available'' else status b)"
  by (simp_all add: increaseCopies_def Let_def)

lemma saveBook_cases: "saveBook i book coll = coll \<or> saveBook i book coll = coll[i := book]"
  by (simp add: saveBook_def)

lemma saveBook_valid: "0 \<le> availableCopies book \<Longrightarrow> saveBook i book coll = coll[i := book]"
  by (simp add: saveBook_def)

lemma project_cases:
  "project e coll = coll \<or>
   (\<exists>j<length coll. 0 < availableCopies (coll ! j) \<and> project e coll = coll[j := decreaseCopies (coll ! j)]) \<or>
   (\<exists>j<length coll. project e coll = coll[j := increaseCopies (coll ! j)])"
proof (cases e)
  case (BookBorrowed message)
  show ?thesis
  proof (cases message)
    case None
    with BookBorrowed show ?thesis by (simp add: handleBookBorrowed_def)
  next
    case (Some bid)
    show ?thesis
    proof (cases "findOne (\<lambda>b. bk_bookId b = bid) coll")
      case None
      with BookBorrowed Some show ?thesis by (simp add: handleBookBorrowed_def)
    next
      case found: (Some j)
      from findOne_Some[OF found] have j: "j < length coll" by simp
      show ?thesis
      proof (cases "availableCopies (coll ! j) \<le> 0")
        case True
        with BookBorrowed Some found show ?thesis by (simp add: handleBookBorrowed_def)
      next
        case False
        with BookBorrowed Some found
        have "project e coll = saveBook j (decreaseCopies (coll ! j)) coll"
          by (simp add: handleBookBorrowed_def)
        with saveBook_cases[of j "decreaseCopies (coll ! j)" coll] j False show ?thesis
          by auto
      qed
    qed
  qed
next
  case (BookReturned message)
  show ?thesis
  proof (cases message)
    case None
    with BookReturned show ?thesis by (simp add: handleBookReturned_def)
  next
    case (Some bid)
    show ?thesis
    proof (cases "findOne (\<lambda>b. bk_bookId b = bid) coll")
      case None
      with BookReturned Some show ?thesis by (simp add: handleBookReturned_def)
    next
      case found: (Some j)
      from findOne_Some[OF found] have j: "j < length coll" by simp
      from BookReturned Some found
      have "project e coll = saveBook j (increaseCopies (coll ! j)) coll"
        by (simp add: handleBookReturned_def)
      with saveBook_cases[of j "increaseCopies (coll ! j)" coll] j show ?thesis
        by auto
    qed
  qed
qed

lemma decreaseCopies_bounds:
  assumes "within_bounds b" "integer_counts b" "0 < availableCopies b"
  shows "within_bounds (decreaseCopies b) \<and> integer_counts (decreaseCopies b)"
proof -
  from assms have a: "availableCopies b \<in> \<int>" "availableCopies b \<le> totalCopies b"
    "totalCopies b \<in> \<int>" "totalCopies b \<le> 2 ^ 53"
    by (simp_all add: within_bounds_def integer_counts_def)
  from positive_integer_ge_one[OF a(1) assms(3)] have one: "1 \<le> availableCopies b" .
  from a(2,4) have "availableCopies b \<le> 2 ^ 53" by simp
  from js_sub_one[OF a(1) one this]
  have sub: "js_sub (availableCopies b) 1 = availableCopies b - 1" .
  from a(1) have "availableCopies b - 1 \<in> \<int>" by simp
  with one a show ?thesis
    by (simp add: within_bounds_def integer_counts_def decreaseCopies_fields sub)
qed

lemma increaseCopies_bounds:
  assumes "within_bounds b" "integer_counts b"
  shows "within_bounds (increaseCopies b) \<and> integer_counts (increaseCopies b)"
proof (cases "availableCopies b < totalCopies b")
  case True
  from assms have a: "availableCopies b \<in> \<int>" "0 \<le> availableCopies b"
    "totalCopies b \<in> \<int>" "totalCopies b \<le> 2 ^ 53"
    by (simp_all add: within_bounds_def integer_counts_def)
  from Ints_less_add1[OF a(1,3) True] have le: "availableCopies b + 1 \<le> totalCopies b" .
  with a(4) have "availableCopies b + 1 \<le> 2 ^ 53" by simp
  from js_add_one[OF a(1,2) this]
  have add: "js_add (availableCopies b) 1 = availableCopies b + 1" .
  from a(1) have "availableCopies b + 1 \<in> \<int>" by simp
  with True le a show ?thesis
    by (simp add: within_bounds_def integer_counts_def increaseCopies_fields add)
next
  case False
  with assms show ?thesis
    by (simp add: within_bounds_def integer_counts_def increaseCopies_fields)
qed

lemma project_preserves:
  assumes "i < length coll" "within_bounds (coll ! i)" "integer_counts (coll ! i)"
  shows "length (project e coll) = length coll \<and> within_bounds (project e coll ! i) \<and>
         integer_counts (project e coll ! i) \<and>
         totalCopies (project e coll ! i) = totalCopies (coll ! i) \<and>
         bk_bookId (project e coll ! i) = bk_bookId (coll ! i)"
proof -
  from project_cases[of e coll] consider
      (same) "project e coll = coll"
    | (dec) j where "j < length coll" "0 < availableCopies (coll ! j)"
        "project e coll = coll[j := decreaseCopies (coll ! j)]"
    | (inc) j where "j < length coll" "project e coll = coll[j := increaseCopies (coll ! j)]"
    by blast
  then show ?thesis
  proof cases
    case same
    with assms show ?thesis by simp
  next
    case dec
    show ?thesis
    proof (cases "j = i")
      case True
      with dec assms decreaseCopies_bounds[of "coll ! i"] show ?thesis
        by (simp add: decreaseCopies_fields)
    next
      case False
      with dec assms show ?thesis by simp
    qed
  next
    case inc
    show ?thesis
    proof (cases "j = i")
      case True
      with inc assms increaseCopies_bounds[of "coll ! i"] show ?thesis
        by (simp add: increaseCopies_fields)
    next
      case False
      with inc assms show ?thesis by simp
    qed
  qed
qed

lemma project_all_preserves:
  assumes "i < length coll" "within_bounds (coll ! i)" "integer_counts (coll ! i)"
  shows "length (project_all events coll) = length coll \<and>
         within_bounds (project_all events coll ! i) \<and>
         integer_counts (project_all events coll ! i) \<and>
         totalCopies (project_all events coll ! i) = totalCopies (coll ! i) \<and>
         bk_bookId (project_all events coll ! i) = bk_bookId (coll ! i)"
  using assms unfolding project_all_def
proof (induction events arbitrary: coll)
  case Nil
  then show ?case by simp
next
  case (Cons e events)
  from project_preserves[OF Cons.prems, of e]
  have step: "length (project e coll) = length coll" "within_bounds (project e coll ! i)"
    "integer_counts (project e coll ! i)"
    "totalCopies (project e coll ! i) = totalCopies (coll ! i)"
    "bk_bookId (project e coll ! i) = bk_bookId (coll ! i)"
    by simp_all
  from step(1) Cons.prems(1) have "i < length (project e coll)" by simp
  from Cons.IH[OF this step(2,3)] step show ?case by simp
qed

text \<open>
  C2, as the specification words it, fails for a count that is not an integer. A
  book added with \<open>totalCopies = 2.5\<close> has 2.5 of 2.5 copies available;
  \<open>updateBook\<close> raises the total to 3 and leaves the count, so that
  \<open>0 \<le> availableCopies \<le> totalCopies\<close> holds with 2.5 of 3. A BookReturned event
  for the book finds \<open>2.5 < 3\<close> and stores 3.5, which is above the total.
\<close>

theorem fractional_count_exceeds_total:
  "updateTotalCopies 3
     \<lparr>bk_bookId = ''X'', bk_title = ''Cosmos'', totalCopies = 2.5, availableCopies = 2.5,
      status = ''available''\<rparr> =
     (200, \<lparr>bk_bookId = ''X'', bk_title = ''Cosmos'', totalCopies = 3, availableCopies = 2.5,
      status = ''available''\<rparr>) \<and>
   0 \<le> availableCopies
     \<lparr>bk_bookId = ''X'', bk_title = ''Cosmos'', totalCopies = 3, availableCopies = 2.5,
      status = ''available''\<rparr> \<and>
   availableCopies
     \<lparr>bk_bookId = ''X'', bk_title = ''Cosmos'', totalCopies = 3, availableCopies = 2.5,
      status = ''available''\<rparr> \<le>
   totalCopies
     \<lparr>bk_bookId = ''X'', bk_title = ''Cosmos'', totalCopies = 3, availableCopies = 2.5,
      status = ''available''\<rparr> \<and>
   project_all [BookReturned (Some ''X'')]
     [\<lparr>bk_bookId = ''X'', bk_title = ''Cosmos'', totalCopies = 3, availableCopies = 2.5,
       status = ''available''\<rparr>] =
     [\<lparr>bk_bookId = ''X'', bk_title = ''Cosmos'', totalCopies = 3, availableCopies = 3.5,
       status = ''available''\<rparr>] \<and>
   \<not> availableCopies
     (project_all [BookReturned (Some ''X'')]
        [\<lparr>bk_bookId = ''X'', bk_title = ''Cosmos'', totalCopies = 3, availableCopies = 2.5,
          status = ''available''\<rparr>] ! 0) \<le>
   totalCopies
     (project_all [BookReturned (Some ''X'')]
        [\<lparr>bk_bookId = ''X'', bk_title = ''Cosmos'', totalCopies = 3, availableCopies = 2.5,
          status = ''available''\<rparr>] ! 0)"
  by (simp add: updateTotalCopies_def project_all_def handleBookReturned_def saveBook_def
      increaseCopies_def js_add_def representable_def)

text \<open>
  C2, amended. A book whose counts are integers (the total at most \<open>2 ^ 53\<close>) and
  satisfy \<open>0 \<le> availableCopies \<le> totalCopies\<close> keeps satisfying it, with an
  integer count, after every step of any finite sequence of BookBorrowed and
  BookReturned events handled one after the other (events for this book, for other
  books, or unreadable); the book stays in the collection under the same bookId
  and with the same \<open>totalCopies\<close>.
\<close>

theorem availability_bounds_preserved:
  assumes "i < length coll"
    and "0 \<le> availableCopies (coll ! i)" "availableCopies (coll ! i) \<le> totalCopies (coll ! i)"
    and "availableCopies (coll ! i) \<in> \<int>" "totalCopies (coll ! i) \<in> \<int>"
      "totalCopies (coll ! i) \<le> 2 ^ 53"
  shows "\<forall>n. length (project_all (take n events) coll) = length coll \<and>
             0 \<le> availableCopies (project_all (take n events) coll ! i) \<and>
             availableCopies (project_all (take n events) coll ! i) \<le>
               totalCopies (project_all (take n events) coll ! i) \<and>
             availableCopies (project_all (take n events) coll ! i) \<in> \<int> \<and>
             totalCopies (project_all (take n events) coll ! i) = totalCopies (coll ! i) \<and>
             bk_bookId (project_all (take n events) coll ! i) = bk_bookId (coll ! i)"
proof
  fix n
  from assms have b: "within_bounds (coll ! i)" and c: "integer_counts (coll ! i)"
    by (simp_all add: within_bounds_def integer_counts_def)
  from project_all_preserves[OF assms(1) b c, of "take n events"]
  show "length (project_all (take n events) coll) = length coll \<and>
             0 \<le> availableCopies (project_all (take n events) coll ! i) \<and>
             availableCopies (project_all (take n events) coll ! i) \<le>
               totalCopies (project_all (take n events) coll ! i) \<and>
             availableCopies (project_all (take n events) coll ! i) \<in> \<int> \<and>
             totalCopies (project_all (take n events) coll ! i) = totalCopies (coll ! i) \<and>
             bk_bookId (project_all (take n events) coll ! i) = bk_bookId (coll ! i)"
    by (simp add: within_bounds_def integer_counts_def)
qed

text \<open>
  The theorem for a book with one copy of three left, after two borrow events (the
  second is dropped) and a return event for it, which bring the book back to one
  copy of three.
\<close>

theorem availability_bounds_preserved_witness:
  "0 \<le> availableCopies (project_all
      (take 3 [BookBorrowed (Some ''X''), BookBorrowed (Some ''X''), BookReturned (Some ''X'')])
      [\<lparr>bk_bookId = ''X'', bk_title = ''Cosmos'', totalCopies = 3, availableCopies = 1,
        status = ''available''\<rparr>] ! 0) \<and>
   availableCopies (project_all
      (take 3 [BookBorrowed (Some ''X''), BookBorrowed (Some ''X''), BookReturned (Some ''X'')])
      [\<lparr>bk_bookId = ''X'', bk_title = ''Cosmos'', totalCopies = 3, availableCopies = 1,
        status = ''available''\<rparr>] ! 0) \<le> 3 \<and>
   project_all [BookBorrowed (Some ''X''), BookBorrowed (Some ''X''), BookReturned (Some ''X'')]
      [\<lparr>bk_bookId = ''X'', bk_title = ''Cosmos'', totalCopies = 3, availableCopies = 1,
        status = ''available''\<rparr>] =
      [\<lparr>bk_bookId = ''X'', bk_title = ''Cosmos'', totalCopies = 3, availableCopies = 1,
        status = ''available''\<rparr>]"
proof -
  let ?b = "\<lparr>bk_bookId = ''X'', bk_title = ''Cosmos'', totalCopies = 3, availableCopies = 1,
      status = ''available''\<rparr>"
  let ?evs = "[BookBorrowed (Some ''X''), BookBorrowed (Some ''X''), BookReturned (Some ''X'')]"
  have h: "0 < length [?b]"
    "0 \<le> availableCopies ([?b] ! 0)" "availableCopies ([?b] ! 0) \<le> totalCopies ([?b] ! 0)"
    "availableCopies ([?b] ! 0) \<in> \<int>" "totalCopies ([?b] ! 0) \<in> \<int>"
    "totalCopies ([?b] ! 0) \<le> 2 ^ 53"
    by simp_all
  from availability_bounds_preserved[OF h, of ?evs]
  have "0 \<le> availableCopies (project_all (take 3 ?evs) [?b] ! 0) \<and>
        availableCopies (project_all (take 3 ?evs) [?b] ! 0) \<le>
          totalCopies (project_all (take 3 ?evs) [?b] ! 0) \<and>
        totalCopies (project_all (take 3 ?evs) [?b] ! 0) = totalCopies ([?b] ! 0)"
    by blast
  then have bounds: "0 \<le> availableCopies (project_all (take 3 ?evs) [?b] ! 0) \<and>
        availableCopies (project_all (take 3 ?evs) [?b] ! 0) \<le> 3"
    by simp
  have run: "project_all ?evs [?b] = [?b]"
    by (simp add: project_all_def handleBookBorrowed_def handleBookReturned_def saveBook_def
        decreaseCopies_def increaseCopies_def js_add_def js_sub_def representable_def)
  from bounds have lower: "0 \<le> availableCopies (project_all (take 3 ?evs) [?b] ! 0)"
    and upper: "availableCopies (project_all (take 3 ?evs) [?b] ! 0) \<le> 3"
    by blast+
  from lower upper run show ?thesis by (intro conjI)
qed

subsection \<open>Postconditions of one event\<close>

lemma findOne_book:
  assumes "distinct (map bk_bookId coll)" "i < length coll" "bk_bookId (coll ! i) = bid"
  shows "findOne (\<lambda>b. bk_bookId b = bid) coll = Some i"
  by (rule findOne_unique[OF assms(1,2) _ assms(3)]) simp

lemma handleBookBorrowed_found:
  assumes "distinct (map bk_bookId coll)" "i < length coll" "bk_bookId (coll ! i) = bid"
    and "availableCopies (coll ! i) \<in> \<int>" "0 \<le> availableCopies (coll ! i)"
    and "availableCopies (coll ! i) < 2 ^ 53"
  shows "handleBookBorrowed (Some bid) coll =
     (if availableCopies (coll ! i) = 0 then coll
      else coll[i := (coll ! i)\<lparr>availableCopies := availableCopies (coll ! i) - 1,
                               status := (if availableCopies (coll ! i) - 1 = 0 then ''unavailable''
                                          else status (coll ! i))\<rparr>])"
proof (cases "availableCopies (coll ! i) = 0")
  case True
  then show ?thesis by (simp add: handleBookBorrowed_def findOne_book[OF assms(1-3)])
next
  case False
  with assms(5) have pos: "0 < availableCopies (coll ! i)" by simp
  from positive_integer_ge_one[OF assms(4) pos] have one: "1 \<le> availableCopies (coll ! i)" .
  from assms(6) have "availableCopies (coll ! i) \<le> 2 ^ 53" by simp
  from js_sub_one[OF assms(4) one this]
  have sub: "js_sub (availableCopies (coll ! i)) 1 = availableCopies (coll ! i) - 1" .
  have dec: "decreaseCopies (coll ! i) =
      (coll ! i)\<lparr>availableCopies := availableCopies (coll ! i) - 1,
                 status := (if availableCopies (coll ! i) - 1 = 0 then ''unavailable''
                            else status (coll ! i))\<rparr>"
    by (simp add: decreaseCopies_def Let_def sub)
  from one have "0 \<le> availableCopies (decreaseCopies (coll ! i))"
    by (simp add: decreaseCopies_fields sub)
  from saveBook_valid[OF this] pos False show ?thesis
    unfolding dec[symmetric]
    by (simp add: handleBookBorrowed_def findOne_book[OF assms(1-3)])
qed

lemma handleBookReturned_found:
  assumes "distinct (map bk_bookId coll)" "i < length coll" "bk_bookId (coll ! i) = bid"
    and "availableCopies (coll ! i) \<in> \<int>" "0 \<le> availableCopies (coll ! i)"
    and "availableCopies (coll ! i) < 2 ^ 53"
  shows "handleBookReturned (Some bid) coll =
       coll[i := (coll ! i)\<lparr>availableCopies :=
                                (if availableCopies (coll ! i) < totalCopies (coll ! i)
                                 then availableCopies (coll ! i) + 1 else availableCopies (coll ! i)),
                              status :=
                                (if 0 < (if availableCopies (coll ! i) < totalCopies (coll ! i)
                                         then availableCopies (coll ! i) + 1
                                         else availableCopies (coll ! i))
                                 then ''available'' else status (coll ! i))\<rparr>]"
proof -
  have "(2::real) ^ 53 \<in> \<int>" by simp
  from Ints_less_add1[OF assms(4) this assms(6)]
  have "availableCopies (coll ! i) + 1 \<le> 2 ^ 53" .
  from js_add_one[OF assms(4,5) this]
  have add: "js_add (availableCopies (coll ! i)) 1 = availableCopies (coll ! i) + 1" .
  have inc: "increaseCopies (coll ! i) =
      (coll ! i)\<lparr>availableCopies :=
                    (if availableCopies (coll ! i) < totalCopies (coll ! i)
                     then availableCopies (coll ! i) + 1 else availableCopies (coll ! i)),
                 status :=
                    (if 0 < (if availableCopies (coll ! i) < totalCopies (coll ! i)
                             then availableCopies (coll ! i) + 1
                             else availableCopies (coll ! i))
                     then ''available'' else status (coll ! i))\<rparr>"
    by (simp add: increaseCopies_def Let_def add)
  from assms(5) have "0 \<le> availableCopies (increaseCopies (coll ! i))"
    by (simp add: increaseCopies_fields add)
  from saveBook_valid[OF this] show ?thesis
    unfolding inc[symmetric]
    by (simp add: handleBookReturned_def findOne_book[OF assms(1-3)])
qed

lemma handlers_not_found:
  assumes "\<forall>b\<in>set coll. bk_bookId b \<noteq> bid"
  shows "handleBookBorrowed (Some bid) coll = coll" "handleBookReturned (Some bid) coll = coll"
proof -
  from assms have "findOne (\<lambda>b. bk_bookId b = bid) coll = None" by (simp add: findOne_None)
  then show "handleBookBorrowed (Some bid) coll = coll" "handleBookReturned (Some bid) coll = coll"
    by (simp_all add: handleBookBorrowed_def handleBookReturned_def)
qed

text \<open>
  Counts that are not integers. With half a copy available BookBorrowed computes
  \<open>- 0.5\<close>, the save is refused and the document stays as it was; with a count of
  \<open>2 ^ 53\<close> the next integer is not a double, and what BookReturned stores is outside
  the arithmetic modelled here.
\<close>

lemma borrowed_half_copy_refused:
  "handleBookBorrowed (Some ''X'')
     [\<lparr>bk_bookId = ''X'', bk_title = ''Cosmos'', totalCopies = 3, availableCopies = 0.5,
       status = ''available''\<rparr>] =
     [\<lparr>bk_bookId = ''X'', bk_title = ''Cosmos'', totalCopies = 3, availableCopies = 0.5,
       status = ''available''\<rparr>]"
  by (simp add: handleBookBorrowed_def saveBook_def decreaseCopies_def js_sub_def representable_def)

lemma next_integer_not_representable: "\<not> representable (2 ^ 53 + 1)"
  by (simp add: representable_def)

text \<open>
  C3, as the specification words it, fails on BookReturned. A book added with five copies has
  \<open>availableCopies = totalCopies = 5\<close>; the catalog's \<open>updateBook\<close> lowers
  \<open>totalCopies\<close> to 3 and leaves \<open>availableCopies\<close> at 5. A BookReturned event for
  the book leaves the count at 5, which is not \<open>min (5 + 1) 3\<close>.
\<close>

theorem returned_count_is_not_min:
  "updateTotalCopies 3
     \<lparr>bk_bookId = ''X'', bk_title = ''Cosmos'', totalCopies = 5, availableCopies = 5,
      status = ''available''\<rparr> =
     (200, \<lparr>bk_bookId = ''X'', bk_title = ''Cosmos'', totalCopies = 3, availableCopies = 5,
      status = ''available''\<rparr>) \<and>
   availableCopies (handleBookReturned (Some ''X'')
     [\<lparr>bk_bookId = ''X'', bk_title = ''Cosmos'', totalCopies = 3, availableCopies = 5,
       status = ''available''\<rparr>] ! 0) \<noteq>
   min (availableCopies
          \<lparr>bk_bookId = ''X'', bk_title = ''Cosmos'', totalCopies = 3, availableCopies = 5,
           status = ''available''\<rparr> + 1)
       (totalCopies
          \<lparr>bk_bookId = ''X'', bk_title = ''Cosmos'', totalCopies = 3, availableCopies = 5,
           status = ''available''\<rparr>)"
  by (simp add: updateTotalCopies_def handleBookReturned_def saveBook_def increaseCopies_def)

text \<open>
  C3, amended. For a book found under its bookId (unique in the collection) whose
  count is an integer, not negative and below \<open>2 ^ 53\<close>: BookBorrowed leaves the
  collection unchanged when the count is 0 and otherwise decrements it by exactly 1,
  setting \<open>status\<close> to \<open>unavailable\<close> exactly when the new count is 0 and leaving it
  as it was otherwise; BookReturned increments the count by 1 when it is below
  \<open>totalCopies\<close> and leaves it unchanged otherwise, which is
  \<open>min (availableCopies + 1) totalCopies\<close> whenever \<open>totalCopies\<close> is an integer and
  \<open>availableCopies \<le> totalCopies\<close>, and sets \<open>status\<close> to \<open>available\<close> whenever
  the resulting count is positive. A bookId that is not in the collection leaves it
  unchanged under both events. In particular, with one copy of three available,
  BookBorrowed gives count 0 and status \<open>unavailable\<close>, and a BookReturned after it
  gives count 1 and status \<open>available\<close>.
\<close>

theorem projector_postconditions:
  assumes "distinct (map bk_bookId coll)" "i < length coll" "bk_bookId (coll ! i) = bid"
    and "availableCopies (coll ! i) \<in> \<int>" "0 \<le> availableCopies (coll ! i)"
    and "availableCopies (coll ! i) < 2 ^ 53"
  shows
    "((\<forall>b\<in>set coll. bk_bookId b \<noteq> other) \<longrightarrow>
        handleBookBorrowed (Some other) coll = coll \<and> handleBookReturned (Some other) coll = coll) \<and>
     handleBookBorrowed (Some bid) coll =
       (if availableCopies (coll ! i) = 0 then coll
        else coll[i := (coll ! i)\<lparr>availableCopies := availableCopies (coll ! i) - 1,
                                 status := (if availableCopies (coll ! i) - 1 = 0 then ''unavailable''
                                            else status (coll ! i))\<rparr>]) \<and>
     handleBookReturned (Some bid) coll =
       coll[i := (coll ! i)\<lparr>availableCopies :=
                                (if availableCopies (coll ! i) < totalCopies (coll ! i)
                                 then availableCopies (coll ! i) + 1 else availableCopies (coll ! i)),
                              status :=
                                (if 0 < (if availableCopies (coll ! i) < totalCopies (coll ! i)
                                         then availableCopies (coll ! i) + 1
                                         else availableCopies (coll ! i))
                                 then ''available'' else status (coll ! i))\<rparr>] \<and>
     (totalCopies (coll ! i) \<in> \<int> \<and> availableCopies (coll ! i) \<le> totalCopies (coll ! i) \<longrightarrow>
        availableCopies (handleBookReturned (Some bid) coll ! i) =
          min (availableCopies (coll ! i) + 1) (totalCopies (coll ! i))) \<and>
     (0 < availableCopies (handleBookReturned (Some bid) coll ! i) \<longrightarrow>
        status (handleBookReturned (Some bid) coll ! i) = ''available'') \<and>
     (availableCopies (coll ! i) = 1 \<and> totalCopies (coll ! i) = 3 \<longrightarrow>
        availableCopies (handleBookBorrowed (Some bid) coll ! i) = 0 \<and>
        status (handleBookBorrowed (Some bid) coll ! i) = ''unavailable'' \<and>
        availableCopies (handleBookReturned (Some bid) (handleBookBorrowed (Some bid) coll) ! i) = 1 \<and>
        status (handleBookReturned (Some bid) (handleBookBorrowed (Some bid) coll) ! i) = ''available'')"
proof -
  note B = handleBookBorrowed_found[OF assms]
  note R = handleBookReturned_found[OF assms]
  have 1: "(\<forall>b\<in>set coll. bk_bookId b \<noteq> other) \<longrightarrow>
        handleBookBorrowed (Some other) coll = coll \<and> handleBookReturned (Some other) coll = coll"
    using handlers_not_found[of coll other] by blast
  have 4: "totalCopies (coll ! i) \<in> \<int> \<and> availableCopies (coll ! i) \<le> totalCopies (coll ! i) \<longrightarrow>
        availableCopies (handleBookReturned (Some bid) coll ! i) =
          min (availableCopies (coll ! i) + 1) (totalCopies (coll ! i))"
  proof
    assume t: "totalCopies (coll ! i) \<in> \<int> \<and> availableCopies (coll ! i) \<le> totalCopies (coll ! i)"
    show "availableCopies (handleBookReturned (Some bid) coll ! i) =
          min (availableCopies (coll ! i) + 1) (totalCopies (coll ! i))"
    proof (cases "availableCopies (coll ! i) < totalCopies (coll ! i)")
      case True
      from Ints_less_add1[OF assms(4) conjunct1[OF t] True]
      have "availableCopies (coll ! i) + 1 \<le> totalCopies (coll ! i)" .
      with True assms(2) show ?thesis unfolding R by simp
    next
      case False
      with t have "availableCopies (coll ! i) = totalCopies (coll ! i)" by simp
      with assms(2) show ?thesis unfolding R by simp
    qed
  qed
  have 5: "0 < availableCopies (handleBookReturned (Some bid) coll ! i) \<longrightarrow>
        status (handleBookReturned (Some bid) coll ! i) = ''available''"
    using assms(2) unfolding R by simp
  have 6: "availableCopies (coll ! i) = 1 \<and> totalCopies (coll ! i) = 3 \<longrightarrow>
        availableCopies (handleBookBorrowed (Some bid) coll ! i) = 0 \<and>
        status (handleBookBorrowed (Some bid) coll ! i) = ''unavailable'' \<and>
        availableCopies (handleBookReturned (Some bid) (handleBookBorrowed (Some bid) coll) ! i) = 1 \<and>
        status (handleBookReturned (Some bid) (handleBookBorrowed (Some bid) coll) ! i) = ''available''"
  proof
    assume a: "availableCopies (coll ! i) = 1 \<and> totalCopies (coll ! i) = 3"
    let ?c = "coll[i := (coll ! i)\<lparr>availableCopies := 0, status := ''unavailable''\<rparr>]"
    from a have b: "handleBookBorrowed (Some bid) coll = ?c" unfolding B by simp
    have d: "distinct (map bk_bookId ?c)"
      using assms(1,2) by (simp add: keys_update_same[of i coll bk_bookId])
    have r: "handleBookReturned (Some bid) ?c =
        ?c[i := (coll ! i)\<lparr>availableCopies := 1, status := ''available''\<rparr>]"
      using handleBookReturned_found[OF d, of i bid] assms(2,3) a by simp
    from assms(2) show "availableCopies (handleBookBorrowed (Some bid) coll ! i) = 0 \<and>
        status (handleBookBorrowed (Some bid) coll ! i) = ''unavailable'' \<and>
        availableCopies (handleBookReturned (Some bid) (handleBookBorrowed (Some bid) coll) ! i) = 1 \<and>
        status (handleBookReturned (Some bid) (handleBookBorrowed (Some bid) coll) ! i) = ''available''"
      unfolding b r by simp
  qed
  from 1 B R 4 5 6 show ?thesis by (intro conjI)
qed

text \<open>Scenario C of the specification, from the theorem.\<close>

theorem projector_postconditions_witness:
  "map (\<lambda>b. (availableCopies b, status b))
     (handleBookBorrowed (Some ''X'')
        [\<lparr>bk_bookId = ''X'', bk_title = ''Cosmos'', totalCopies = 3, availableCopies = 1,
          status = ''available''\<rparr>]) = [(0, ''unavailable'')] \<and>
   map (\<lambda>b. (availableCopies b, status b))
     (handleBookReturned (Some ''X'')
        (handleBookBorrowed (Some ''X'')
           [\<lparr>bk_bookId = ''X'', bk_title = ''Cosmos'', totalCopies = 3, availableCopies = 1,
             status = ''available''\<rparr>])) = [(1, ''available'')]"
proof -
  let ?b = "\<lparr>bk_bookId = ''X'', bk_title = ''Cosmos'', totalCopies = 3, availableCopies = 1,
          status = ''available''\<rparr>"
  have h: "distinct (map bk_bookId [?b])" "0 < length [?b]" "bk_bookId ([?b] ! 0) = ''X''"
    "availableCopies ([?b] ! 0) \<in> \<int>" "0 \<le> availableCopies ([?b] ! 0)"
    "availableCopies ([?b] ! 0) < 2 ^ 53"
    by simp_all
  note T = projector_postconditions[OF h]
  have borrowed: "handleBookBorrowed (Some ''X'') [?b] =
      [?b\<lparr>availableCopies := 0, status := ''unavailable''\<rparr>]"
    using T[THEN conjunct2, THEN conjunct1] by simp
  have h': "distinct (map bk_bookId [?b\<lparr>availableCopies := 0, status := ''unavailable''\<rparr>])"
    "0 < length [?b\<lparr>availableCopies := 0, status := ''unavailable''\<rparr>]"
    "bk_bookId ([?b\<lparr>availableCopies := 0, status := ''unavailable''\<rparr>] ! 0) = ''X''"
    "availableCopies ([?b\<lparr>availableCopies := 0, status := ''unavailable''\<rparr>] ! 0) \<in> \<int>"
    "0 \<le> availableCopies ([?b\<lparr>availableCopies := 0, status := ''unavailable''\<rparr>] ! 0)"
    "availableCopies ([?b\<lparr>availableCopies := 0, status := ''unavailable''\<rparr>] ! 0) < 2 ^ 53"
    by simp_all
  have returned: "handleBookReturned (Some ''X'') [?b\<lparr>availableCopies := 0, status := ''unavailable''\<rparr>] =
      [?b\<lparr>availableCopies := 1, status := ''available''\<rparr>]"
    using projector_postconditions[OF h', THEN conjunct2, THEN conjunct2, THEN conjunct1] by simp
  show ?thesis unfolding borrowed returned by simp
qed

section \<open>Borrowing and the message broker\<close>

text \<open>
  The borrow service: its collection of borrow records (models/Borrow.js), the
  publisher's module state (services/eventPublisher.js) and the messages the broker
  has accepted on the \<^verbatim>\<open>BookBorrowed\<close> channel, which is all a consumer can observe.
\<close>

record Borrow =
  br_id :: string
  br_userId :: string
  br_bookId :: string
  br_email :: string
  br_borrowerName :: string
  borrowDate :: int
  dueDate :: int
  returnDate :: "int option"
  br_status :: string

record BookBorrowedMessage =
  m_bookId :: string
  m_userId :: string
  m_email :: string
  m_borrowerName :: string
  m_bookTitle :: string
  m_dueDate :: int
  m_borrowId :: string
  m_borrowDate :: int
  m_timestamp :: int

record Publisher =
  isConnected :: bool
  hasClient :: bool

record BorrowService =
  borrows :: "Borrow list"
  publisher :: Publisher
  channel :: "BookBorrowedMessage list"

text \<open>
  What becomes of a promise the code awaits on another process: it resolves with a
  value, it rejects, or it stays pending. None of the awaited calls below sets a
  timeout, so a function that awaits a pending promise does not return; its result
  is then \<open>None\<close>.
\<close>

datatype 'a promise = Resolved 'a | Rejected | Pending

text \<open>
  \<^verbatim>\<open>publishBookBorrowed(data)\<close>: the value returned and the channel afterwards.
  \<open>outcome\<close> is what becomes of \<^verbatim>\<open>redisClient.publish\<close>; when it rejects, the
  \<^verbatim>\<open>catch\<close> returns \<^verbatim>\<open>false\<close>. No path of the function throws. The flag
  \<^verbatim>\<open>isConnected\<close> is cleared by the client's \<^verbatim>\<open>error\<close> event only, so a broker that has
  stopped answering can still be flagged connected.
\<close>

definition publishBookBorrowed ::
  "Publisher \<Rightarrow> unit promise \<Rightarrow> BookBorrowedMessage \<Rightarrow> BookBorrowedMessage list \<Rightarrow>
   bool option \<times> BookBorrowedMessage list"
where
  "publishBookBorrowed pub outcome msg chan =
     (if \<not> isConnected pub \<or> \<not> hasClient pub then (Some False, chan)
      else (case outcome of
              Resolved u \<Rightarrow> (Some True, chan @ [msg])
            | Rejected \<Rightarrow> (Some False, chan)
            | Pending \<Rightarrow> (None, chan)))"

text \<open>
  \<^verbatim>\<open>verifyEmail(email)\<close> of the auth service client, on what becomes of the login
  request: \<open>Some True\<close> when the promise resolves, \<open>Some False\<close> when it rejects.
\<close>

datatype auth_reply = ConnectionRefused | Reply nat | Unanswered

fun verifyEmail :: "auth_reply \<Rightarrow> bool option" where
  "verifyEmail ConnectionRefused = Some False"
| "verifyEmail (Reply code) =
     (if code = 404 then Some False
      else if code = 401 then Some True
      else if 200 \<le> code \<and> code \<le> 299 then Some True
      else Some False)"
| "verifyEmail Unanswered = None"

text \<open>
  The title \<^verbatim>\<open>borrowBook\<close> takes from \<^verbatim>\<open>getBook(bookId)\<close> of the book service client.
  The promise resolves with the title of the reply (empty when the reply holds
  none); when it rejects, the \<^verbatim>\<open>catch\<close> keeps the default title.
\<close>

definition bookTitleOf :: "string promise \<Rightarrow> string option" where
  "bookTitleOf reply =
     (case reply of
        Resolved t \<Rightarrow> Some (if t = [] then ''Unknown Book'' else t)
      | Rejected \<Rightarrow> Some ''Unknown Book''
      | Pending \<Rightarrow> None)"

record borrowBook_body =
  bb_userId :: string
  bb_bookId :: string
  bb_email :: string
  bb_borrowerName :: string
  bb_borrowDuration :: "int option"

text \<open>
  What \<^verbatim>\<open>borrowBook\<close> takes from its surroundings: what becomes of the login request
  for an email, of the request for a book and of the publication to the broker; the
  clock when the record is made and when the message is stamped; the identifier the
  store gives the new record; and the runtime's date arithmetic: \<open>addDays t n\<close> is
  the date \<^verbatim>\<open>setDate(getDate() + n)\<close> makes of \<open>t\<close>, \<open>None\<close> when it falls outside the
  range of \<^verbatim>\<open>Date\<close> (the record then fails to save and the answer is 500). The
  service's own store answers every call.
\<close>

record Surroundings =
  auth :: "string \<Rightarrow> auth_reply"
  catalog :: "string \<Rightarrow> string promise"
  broker :: "unit promise"
  clock :: int
  publishClock :: int
  freshId :: string
  addDays :: "int \<Rightarrow> int \<Rightarrow> int option"

text \<open>
  \<^verbatim>\<open>String.prototype.toLowerCase\<close>, modelled on ASCII text, where it maps \<open>A\<close> to
  \<open>Z\<close> and nothing else; on other text the result is left unspecified.
\<close>

definition toLowerCase :: "string \<Rightarrow> string" where
  "toLowerCase s =
     (if list_all (\<lambda>c. (of_char c :: nat) < 128) s
      then map (\<lambda>c. let n = (of_char c :: nat) in if 65 \<le> n \<and> n \<le> 90 then char_of (n + 32) else c) s
      else undefined)"

definition borrowDays :: "int option \<Rightarrow> int" where
  "borrowDays parsed = min (case parsed of None \<Rightarrow> 14 | Some n \<Rightarrow> if n = 0 then 14 else n) 14"

definition newBorrow :: "Surroundings \<Rightarrow> borrowBook_body \<Rightarrow> int \<Rightarrow> Borrow" where
  "newBorrow env body due =
     \<lparr>br_id = freshId env,
      br_userId = bb_userId body,
      br_bookId = bb_bookId body,
      br_email = toLowerCase (bb_email body),
      br_borrowerName =
        (if bb_borrowerName body = [] then takeWhile (\<lambda>c. c \<noteq> CHR ''@'') (bb_email body)
         else bb_borrowerName body),
      borrowDate = clock env,
      dueDate = due,
      returnDate = None,
      br_status = ''BORROWED''\<rparr>"

definition borrowedMessage :: "Surroundings \<Rightarrow> Borrow \<Rightarrow> string \<Rightarrow> BookBorrowedMessage" where
  "borrowedMessage env borrow title =
     \<lparr>m_bookId = br_bookId borrow, m_userId = br_userId borrow, m_email = br_email borrow,
      m_borrowerName = br_borrowerName borrow,
      m_bookTitle = title,
      m_dueDate = dueDate borrow, m_borrowId = br_id borrow, m_borrowDate = borrowDate borrow,
      m_timestamp = publishClock env\<rparr>"

text \<open>
  \<^verbatim>\<open>borrowBook(req, res)\<close>: the HTTP status of the response, \<open>None\<close> when no response
  is sent, and the service afterwards.
\<close>

definition borrowBook ::
  "Surroundings \<Rightarrow> borrowBook_body \<Rightarrow> BorrowService \<Rightarrow> nat option \<times> BorrowService"
where
  "borrowBook env body svc =
     (if bb_userId body = [] \<or> bb_bookId body = [] \<or> bb_email body = [] then (Some 400, svc)
      else
        (case verifyEmail (auth env (bb_email body)) of
           None \<Rightarrow> (None, svc)
         | Some False \<Rightarrow> (Some 400, svc)
         | Some True \<Rightarrow>
             if findOne (\<lambda>b. br_userId b = bb_userId body \<and> br_bookId b = bb_bookId body \<and>
                             br_status b = ''BORROWED'') (borrows svc) \<noteq> None
             then (Some 400, svc)
             else
               (case addDays env (clock env) (borrowDays (bb_borrowDuration body)) of
                  None \<Rightarrow> (Some 500, svc)
                | Some due \<Rightarrow>
                    (let borrow = newBorrow env body due;
                         saved = svc\<lparr>borrows := borrows svc @ [borrow]\<rparr>
                     in (case bookTitleOf (catalog env (bb_bookId body)) of
                           None \<Rightarrow> (None, saved)
                         | Some title \<Rightarrow>
                             (case publishBookBorrowed (publisher saved) (broker env)
                                     (borrowedMessage env borrow title) (channel saved) of
                                (None, chan) \<Rightarrow> (None, saved\<lparr>channel := chan\<rparr>)
                              | (Some published, chan) \<Rightarrow> (Some 201, saved\<lparr>channel := chan\<rparr>)))))))"


text \<open>
  The path on which the broker accepts: the request is answered 201 and one message,
  built from the stored record and the title, is on the channel after the others.
\<close>

lemma borrow_published_when_broker_accepts:
  assumes up: "isConnected (publisher svc)" "hasClient (publisher svc)" "broker env = Resolved u"
    and fields: "bb_userId body \<noteq> []" "bb_bookId body \<noteq> []" "bb_email body \<noteq> []"
    and verified: "verifyEmail (auth env (bb_email body)) = Some True"
    and fresh: "\<forall>b\<in>set (borrows svc). \<not> (br_userId b = bb_userId body \<and>
        br_bookId b = bb_bookId body \<and> br_status b = ''BORROWED'')"
    and due: "addDays env (clock env) (borrowDays (bb_borrowDuration body)) = Some due"
    and title: "bookTitleOf (catalog env (bb_bookId body)) = Some t"
  shows "borrowBook env body svc =
     (Some 201,
      svc\<lparr>borrows := borrows svc @ [newBorrow env body due],
          channel := channel svc @
            [\<lparr>m_bookId = bb_bookId body, m_userId = bb_userId body,
              m_email = toLowerCase (bb_email body),
              m_borrowerName = br_borrowerName (newBorrow env body due),
              m_bookTitle = t, m_dueDate = due, m_borrowId = freshId env,
              m_borrowDate = clock env, m_timestamp = publishClock env\<rparr>]\<rparr>)"
proof -
  from fresh have none: "findOne (\<lambda>b. br_userId b = bb_userId body \<and> br_bookId b = bb_bookId body \<and>
      br_status b = ''BORROWED'') (borrows svc) = None"
    by (simp add: findOne_None)
  show ?thesis
    using up fields verified none due title
    by (simp add: borrowBook_def Let_def publishBookBorrowed_def borrowedMessage_def newBorrow_def)
qed





end
